theory Spec2Isabelle
  imports Main "HOL-Library.Multiset"
begin

section \<open>Cards and the deck (server.js)\<close>

text \<open>
  A card is the string built by the template literal \<^verbatim>\<open>`${rank}${suit}`\<close>. Strings are
  modelled as lists of characters; every string the server builds itself is ASCII.
\<close>

definition suits :: "string list" where
  "suits = [''S'', ''H'', ''D'', ''C'']"

definition ranks :: "string list" where
  "ranks = [''A'', ''K'', ''Q'', ''J'', ''10'', ''9'', ''8'', ''7'', ''6'', ''5'', ''4'', ''3'', ''2'']"

text \<open>\<^verbatim>\<open>buildDeck\<close>: the outer loop runs over the suits, the inner one over the ranks.\<close>

definition buildDeck :: "string list" where
  "buildDeck = concat (map (\<lambda>suit. map (\<lambda>rank. rank @ suit) ranks) suits)"

text \<open>
  \<^verbatim>\<open>splitCard\<close>: \<^verbatim>\<open>card.slice(-1)\<close> is the last character (the empty string when the card
  is empty) and \<^verbatim>\<open>card.slice(0, -1)\<close> is everything before it. The result is the pair
  \<^verbatim>\<open>[rank, suit]\<close>.
\<close>

definition splitCard :: "string \<Rightarrow> string \<times> string" where
  "splitCard c = (butlast c, if c = [] then [] else [last c])"

subsection \<open>The comparator and \<^verbatim>\<open>Array.prototype.sort\<close>\<close>

text \<open>
  A JavaScript number that may be \<^verbatim>\<open>undefined\<close> or \<^verbatim>\<open>NaN\<close> is an \<open>int option\<close>, with
  \<open>None\<close> for both: subtracting with an undefined operand gives \<^verbatim>\<open>NaN\<close>.
\<close>

definition js_minus :: "int option \<Rightarrow> int option \<Rightarrow> int option" where
  "js_minus a b = (case a of None \<Rightarrow> None
                   | Some x \<Rightarrow> (case b of None \<Rightarrow> None | Some y \<Rightarrow> Some (x - y)))"

text \<open>\<^verbatim>\<open>suitOrder = { S: 0, H: 1, D: 2, C: 3 }\<close>; any other key reads as \<^verbatim>\<open>undefined\<close>.\<close>

definition suitOrder :: "string \<Rightarrow> int option" where
  "suitOrder = map_of [(''S'', 0), (''H'', 1), (''D'', 2), (''C'', 3)]"

definition rankOrder :: "string list" where
  "rankOrder = [''A'', ''K'', ''Q'', ''J'', ''10'', ''9'', ''8'', ''7'', ''6'', ''5'', ''4'', ''3'', ''2'']"

text \<open>\<^verbatim>\<open>Array.prototype.indexOf\<close>: the first index holding the value, \<open>-1\<close> when absent.\<close>

fun indexOf :: "'a list \<Rightarrow> 'a \<Rightarrow> int" where
  "indexOf [] v = -1"
| "indexOf (x # xs) v = (if x = v then 0 else (let k = indexOf xs v in if k < 0 then -1 else k + 1))"

definition cardComparator :: "string \<Rightarrow> string \<Rightarrow> int option" where
  "cardComparator a b =
     (case splitCard a of (rankA, suitA) \<Rightarrow>
      case splitCard b of (rankB, suitB) \<Rightarrow>
        if suitA \<noteq> suitB then js_minus (suitOrder suitA) (suitOrder suitB)
        else Some (indexOf rankOrder rankA - indexOf rankOrder rankB))"

text \<open>
  \<^verbatim>\<open>Array.prototype.sort(comparefn)\<close>. The language standard reads a \<^verbatim>\<open>NaN\<close> result of
  the comparator as \<open>0\<close> and requires the sort to be stable; for a comparator that is a
  consistent ordering of the elements every stable sort returns the same array, so the
  model is the stable insertion sort. (For an inconsistent comparator the standard leaves
  the order to the implementation; the theorems below only sort elements on which the
  comparator is consistent.)
\<close>

definition sortCompare :: "('a \<Rightarrow> 'a \<Rightarrow> int option) \<Rightarrow> 'a \<Rightarrow> 'a \<Rightarrow> int" where
  "sortCompare comparefn x y = (case comparefn x y of None \<Rightarrow> 0 | Some v \<Rightarrow> v)"

fun insert_js :: "('a \<Rightarrow> 'a \<Rightarrow> int option) \<Rightarrow> 'a \<Rightarrow> 'a list \<Rightarrow> 'a list" where
  "insert_js comparefn x [] = [x]"
| "insert_js comparefn x (y # ys) =
     (if sortCompare comparefn x y \<le> 0 then x # y # ys else y # insert_js comparefn x ys)"

definition sort_js :: "('a \<Rightarrow> 'a \<Rightarrow> int option) \<Rightarrow> 'a list \<Rightarrow> 'a list" where
  "sort_js comparefn xs = foldr (insert_js comparefn) xs []"

text \<open>
  The canonical order of the specification, in its own words: suits in the order
  S, H, D, C first, then ranks in the order A, K, Q, J, 10, 9, ..., 2. A card is given
  as its pair (rank, suit).
\<close>

definition canonical_le :: "string \<times> string \<Rightarrow> string \<times> string \<Rightarrow> bool" where
  "canonical_le x y =
     (case x of (rx, sx) \<Rightarrow> case y of (ry, sy) \<Rightarrow>
        indexOf [''S'', ''H'', ''D'', ''C''] sx < indexOf [''S'', ''H'', ''D'', ''C''] sy
        \<or> (sx = sy \<and>
            indexOf [''A'', ''K'', ''Q'', ''J'', ''10'', ''9'', ''8'', ''7'', ''6'', ''5'', ''4'', ''3'', ''2''] rx
            \<le> indexOf [''A'', ''K'', ''Q'', ''J'', ''10'', ''9'', ''8'', ''7'', ''6'', ''5'', ''4'', ''3'', ''2''] ry))"

section \<open>Sessions\<close>

text \<open>
  The game object of the server:
  \<^verbatim>\<open>{ id, hostId, status, players: [{id, name, position}], hands: {playerId: string[]}, createdAt }\<close>.
  The fields \<^verbatim>\<open>id\<close> are called \<open>playerId\<close> and \<open>gameId\<close>, as the API calls them. A position is
  \<open>None\<close> when it is \<^verbatim>\<open>undefined\<close>. Player ids are results of \<^verbatim>\<open>randomUUID()\<close>, so a key
  of \<^verbatim>\<open>hands\<close> never names a property that the object inherits, and \<^verbatim>\<open>hands\<close> is a map
  from ids to arrays. The record is polymorphic in what a hand is: an array
  taken by value (\<open>string list\<close>) or a reference to an array of the store (\<open>addr\<close>, see the
  last section).
\<close>

record player =
  playerId :: string
  name :: string
  position :: "nat option"

record 'h game =
  gameId :: string
  hostId :: string
  status :: string
  players :: "player list"
  hands :: "string \<rightharpoonup> 'h"
  createdAt :: nat

text \<open>The registry \<^verbatim>\<open>games = new Map()\<close>, from codes to game objects.\<close>

type_synonym store = "string \<rightharpoonup> string list game"

subsection \<open>Randomness\<close>

text \<open>
  A result of \<^verbatim>\<open>Math.random()\<close> is a double \<open>r\<close> with \<open>0 \<le> r < 1\<close>, given to the model from
  outside. Every such double is \<open>mantissa / 2 ^ exponent\<close> for a mantissa below \<open>2 ^ 53\<close> and
  an exponent of at most 1074 (the smallest positive double is \<open>1 / 2 ^ 1074\<close>).
\<close>

record draw =
  mantissa :: nat
  exponent :: nat

definition unit_draw :: "draw \<Rightarrow> bool" where
  "unit_draw r = (mantissa r < 2 ^ 53 \<and> mantissa r < 2 ^ exponent r \<and> exponent r \<le> 1074)"

text \<open>The number of binary digits of a natural number.\<close>

fun bitlen :: "nat \<Rightarrow> nat" where
  "bitlen n = (if n = 0 then 0 else Suc (bitlen (n div 2)))"

declare bitlen.simps [simp del]

text \<open>
  \<^verbatim>\<open>Math.random() * n\<close> for an integer \<open>n\<close> below \<open>2 ^ 53\<close> is a multiplication of doubles.
  Its exact value is \<open>(mantissa * n) / 2 ^ exponent\<close>; its result is the double nearest to
  that value, the one with the even last digit when two are equally near. \<open>round53 N\<close> is
  that rounding of the numerator to 53 significant binary digits: below \<open>2 ^ 53\<close> the
  numerator is exact; otherwise its last \<open>b\<close> digits are rounded away. (The exponent is
  at most 1074 and \<open>n \<ge> 1\<close>, so the result is not below the range of full precision,
  and it is far from overflow.) \<^verbatim>\<open>Math.floor\<close> of the rounded product is then the integer
  quotient by \<open>2 ^ exponent\<close>, which gives \<^verbatim>\<open>Math.floor(Math.random() * n)\<close> as
  \<open>randomIndex r n\<close>.
\<close>

definition round53 :: "nat \<Rightarrow> nat" where
  "round53 N =
     (if N < 2 ^ 53 then N
      else (let b = bitlen N - 53;
                q = N div 2 ^ b;
                rest = N mod 2 ^ b;
                half = 2 ^ (b - 1);
                q' = (if half < rest \<or> (rest = half \<and> odd q) then q + 1 else q)
            in q' * 2 ^ b))"

definition randomIndex :: "draw \<Rightarrow> nat \<Rightarrow> nat" where
  "randomIndex r n = round53 (mantissa r * n) div 2 ^ exponent r"

subsection \<open>\<^verbatim>\<open>generateCode\<close> and \<^verbatim>\<open>createGame\<close>\<close>

definition chars :: string where
  "chars = ''ABCDEFGHJKLMNPQRSTUVWXYZ23456789''"

text \<open>\<^verbatim>\<open>String.prototype.charAt\<close>: the empty string when the index is out of range.\<close>

definition charAt :: "string \<Rightarrow> nat \<Rightarrow> string" where
  "charAt s n = (if n < length s then [s ! n] else [])"

text \<open>
  \<^verbatim>\<open>generateCode\<close> draws five characters and starts over while the code is taken. The
  list is the sequence of draws of \<^verbatim>\<open>Math.random()\<close> that are available; the result is
  \<open>None\<close> when the function has not returned by the end of that sequence.
\<close>

fun generateCode :: "(string \<rightharpoonup> 'g) \<Rightarrow> draw list \<Rightarrow> string option" where
  "generateCode games (r0 # r1 # r2 # r3 # r4 # rest) =
     (let code = concat (map (\<lambda>r. charAt chars (randomIndex r (length chars))) [r0, r1, r2, r3, r4])
      in if games code \<noteq> None then generateCode games rest else Some code)"
| "generateCode games rs = None"

text \<open>
  \<^verbatim>\<open>createGame(name)\<close>; \<open>uuid\<close> is the result of \<^verbatim>\<open>randomUUID()\<close>, \<open>now\<close> that of
  \<^verbatim>\<open>Date.now()\<close>. It returns the registry after \<^verbatim>\<open>games.set\<close>, the game and the player.
\<close>

definition createGame :: "store \<Rightarrow> draw list \<Rightarrow> string \<Rightarrow> nat \<Rightarrow> string
    \<Rightarrow> (store \<times> string list game \<times> player) option" where
  "createGame games draws uuid now nm =
     (case generateCode games draws of
        None \<Rightarrow> None
      | Some code \<Rightarrow>
          (let player = \<lparr>playerId = uuid, name = nm, position = Some 0\<rparr>;
               game = \<lparr>gameId = code, hostId = playerId player, status = ''lobby'',
                       players = [player], hands = Map.empty, createdAt = now\<rparr>
           in Some (games(code \<mapsto> game), game, player)))"

subsection \<open>\<^verbatim>\<open>joinGame\<close>\<close>

text \<open>
  \<^verbatim>\<open>[0, 1, 2, 3].find(pos => !existingPositions.includes(pos))\<close> is \<^verbatim>\<open>undefined\<close> when
  all four positions are taken. The game is mutated in place: the model returns it.
\<close>

definition joinGame :: "'h game \<Rightarrow> string \<Rightarrow> string \<Rightarrow> 'h game \<times> player" where
  "joinGame game nm uuid =
     (let existingPositions = map position (players game);
          available = find (\<lambda>pos. Some pos \<notin> set existingPositions) [0, 1, 2, 3];
          player = \<lparr>playerId = uuid, name = nm, position = available\<rparr>
      in (game\<lparr>players := players game @ [player]\<rparr>, player))"

subsection \<open>\<^verbatim>\<open>shuffle\<close> and \<^verbatim>\<open>deal\<close>\<close>

text \<open>
  \<^verbatim>\<open>shuffle\<close>: \<open>i\<close> runs from the last index down to 1, and \<open>draws i\<close> is the result of
  \<^verbatim>\<open>Math.random()\<close> in the iteration of index \<open>i\<close>. The destructuring assignment reads
  both elements before it writes them. A draw \<open>0 \<le> r < 1\<close> gives \<open>j \<le> i\<close> also after the
  rounding of the product, so both indices are inside the array (\<open>randomIndex_less\<close>
  below); the theorems assume such draws.
\<close>

fun shuffleFrom :: "(nat \<Rightarrow> draw) \<Rightarrow> nat \<Rightarrow> 'a list \<Rightarrow> 'a list" where
  "shuffleFrom draws 0 array = array"
| "shuffleFrom draws (Suc n) array =
     (let i = Suc n;
          j = randomIndex (draws i) (i + 1)
      in shuffleFrom draws n (array[i := array ! j, j := array ! i]))"

definition shuffle :: "(nat \<Rightarrow> draw) \<Rightarrow> 'a list \<Rightarrow> 'a list" where
  "shuffle draws array = shuffleFrom draws (length array - 1) array"

text \<open>\<^verbatim>\<open>Array.prototype.slice(start, stop)\<close> for \<open>0 \<le> start \<le> stop\<close>.\<close>

definition slice :: "'a list \<Rightarrow> nat \<Rightarrow> nat \<Rightarrow> 'a list" where
  "slice xs start stop = take (stop - start) (drop start xs)"

text \<open>The comparator \<^verbatim>\<open>(a, b) => a.position - b.position\<close>.\<close>

definition byPosition :: "player \<Rightarrow> player \<Rightarrow> int option" where
  "byPosition a b = js_minus (map_option int (position a)) (map_option int (position b))"

text \<open>The \<^verbatim>\<open>forEach((player, idx) => ...)\<close> of \<^verbatim>\<open>deal\<close>, from index \<open>idx\<close> on.\<close>

fun dealEach :: "string list \<Rightarrow> nat \<Rightarrow> player list \<Rightarrow> (string \<rightharpoonup> string list)
    \<Rightarrow> (string \<rightharpoonup> string list)" where
  "dealEach deck idx [] hs = hs"
| "dealEach deck idx (p # ps) hs =
     (let start = idx * 13
      in dealEach deck (Suc idx) ps (hs(playerId p \<mapsto> slice deck start (start + 13))))"

definition deal :: "(nat \<Rightarrow> draw) \<Rightarrow> string list game \<Rightarrow> string list game" where
  "deal draws game =
     (let deck = shuffle draws buildDeck
      in game\<lparr>hands := dealEach deck 0 (sort_js byPosition (players game)) Map.empty,
               status := ''started''\<rparr>)"

subsection \<open>\<^verbatim>\<open>projectGameForPlayer\<close>\<close>

record player_view =
  pv_id :: string
  pv_name :: string
  pv_position :: "nat option"
  isHost :: bool
  isYou :: bool
  handSize :: nat

record view =
  view_gameId :: string
  view_status :: string
  view_hostId :: string
  view_players :: "player_view list"
  view_hand :: "string list"

definition projectGameForPlayer :: "string list game \<Rightarrow> string \<Rightarrow> view" where
  "projectGameForPlayer game pid =
     (let playerHand = (case hands game pid of Some h \<Rightarrow> h | None \<Rightarrow> []);
          sortedHand = sort_js cardComparator playerHand
      in \<lparr>view_gameId = gameId game,
          view_status = status game,
          view_hostId = hostId game,
          view_players = map (\<lambda>p. \<lparr>pv_id = playerId p,
                                    pv_name = name p,
                                    pv_position = position p,
                                    isHost = (playerId p = hostId game),
                                    isYou = (playerId p = pid),
                                    handSize = (case hands game (playerId p) of
                                                  Some h \<Rightarrow> length h | None \<Rightarrow> 0)\<rparr>)
                             (players game),
          view_hand = sortedHand\<rparr>)"

section \<open>The API (\<^verbatim>\<open>handleApi\<close>)\<close>

text \<open>
  The fields of a request (\<^verbatim>\<open>name\<close>, \<^verbatim>\<open>gameId\<close>, \<^verbatim>\<open>playerId\<close>) are taken to be ASCII
  strings; a missing \<^verbatim>\<open>name\<close> or \<^verbatim>\<open>gameId\<close> of a create or join is the empty string
  (\<^verbatim>\<open>body.name || ''\<close>). \<^verbatim>\<open>trim\<close> removes the white space of both ends, \<^verbatim>\<open>toUpperCase\<close>
  maps the letters a to z to A to Z.
\<close>

definition isWhitespace :: "char \<Rightarrow> bool" where
  "isWhitespace c = (c \<in> set [CHR 0x20, CHR 0x09, CHR 0x0A, CHR 0x0B, CHR 0x0C, CHR 0x0D])"

definition trim :: "string \<Rightarrow> string" where
  "trim s = rev (dropWhile isWhitespace (rev (dropWhile isWhitespace s)))"

definition toUpperChar :: "char \<Rightarrow> char" where
  "toUpperChar c =
     (case map_of (zip ''abcdefghijklmnopqrstuvwxyz'' ''ABCDEFGHIJKLMNOPQRSTUVWXYZ'') c of
        Some u \<Rightarrow> u | None \<Rightarrow> c)"

definition toUpperCase :: "string \<Rightarrow> string" where
  "toUpperCase s = map toUpperChar s"

text \<open>
  The four requests, and the replies of \<^verbatim>\<open>sendJson\<close>. The errors carry the names of the
  specification: \<open>InvalidName\<close> is 400 "Name is required", \<open>NotFound\<close> is 404 "Game not
  found", \<open>SessionAlreadyStarted\<close> is 400 "Game already started", \<open>SessionFull\<close> is 400
  "Game is full", \<open>NotHost\<close> is 403 "Only the host can start the game",
  \<open>PlayerCountInvalid\<close> is 400 "Need exactly 4 players to start" and \<open>PlayerNotInSession\<close>
  is 403 "You are not part of this game".
\<close>

datatype request =
    Create string
  | Join string string
  | Start string string
  | State string string

datatype error =
    InvalidName | NotFound | SessionAlreadyStarted | SessionFull
  | NotHost | PlayerCountInvalid | PlayerNotInSession

datatype response =
    Failure error
  | Seated string string "nat option"
  | Ok
  | Projected view

text \<open>What a request takes from outside: the results of \<^verbatim>\<open>randomUUID()\<close>, \<^verbatim>\<open>Date.now()\<close>
  and \<^verbatim>\<open>Math.random()\<close>.\<close>

record env =
  uuid :: string
  now :: nat
  codeDraws :: "draw list"
  shuffleDraws :: "nat \<Rightarrow> draw"

text \<open>
  \<open>Create name\<close> is \<^verbatim>\<open>POST /api/game/create\<close>, \<open>Join gameId name\<close> is
  \<^verbatim>\<open>POST /api/game/join\<close>, \<open>Start gameId playerId\<close> is \<^verbatim>\<open>POST /api/game/start\<close> and
  \<open>State gameId playerId\<close> is \<^verbatim>\<open>GET /api/game/state\<close>. The result is the registry after
  the request and the reply; it is \<open>None\<close> when \<^verbatim>\<open>generateCode\<close> has not returned.
\<close>

fun handleApi :: "env \<Rightarrow> store \<Rightarrow> request \<Rightarrow> (store \<times> response) option" where
  "handleApi e games (Create nm0) =
     (let nm = trim nm0
      in if nm = [] then Some (games, Failure InvalidName)
         else (case createGame games (codeDraws e) (uuid e) (now e) nm of
                 None \<Rightarrow> None
               | Some (games', game, player) \<Rightarrow>
                   Some (games', Seated (gameId game) (playerId player) (position player))))"
| "handleApi e games (Join gid0 nm0) =
     (let gid = toUpperCase (trim gid0);
          nm = trim nm0
      in case games gid of
           None \<Rightarrow> Some (games, Failure NotFound)
         | Some game \<Rightarrow>
             if status game \<noteq> ''lobby'' then Some (games, Failure SessionAlreadyStarted)
             else if nm = [] then Some (games, Failure InvalidName)
             else if length (players game) \<ge> 4 then Some (games, Failure SessionFull)
             else (case joinGame game nm (uuid e) of (game', player) \<Rightarrow>
                     Some (games(gid \<mapsto> game'),
                           Seated (gameId game') (playerId player) (position player))))"
| "handleApi e games (Start gid pid) =
     (case games gid of
        None \<Rightarrow> Some (games, Failure NotFound)
      | Some game \<Rightarrow>
          if hostId game \<noteq> pid then Some (games, Failure NotHost)
          else if length (players game) \<noteq> 4 then Some (games, Failure PlayerCountInvalid)
          else Some (games(gid \<mapsto> deal (shuffleDraws e) game), Ok))"
| "handleApi e games (State gid pid) =
     (case games gid of
        None \<Rightarrow> Some (games, Failure NotFound)
      | Some game \<Rightarrow>
          if \<not> list_ex (\<lambda>p. playerId p = pid) (players game)
          then Some (games, Failure PlayerNotInSession)
          else Some (games, Projected (projectGameForPlayer game pid)))"

section \<open>The projection over a store of arrays\<close>

text \<open>
  \<^verbatim>\<open>Array.prototype.sort\<close> sorts the array it is called on, in place. To say what
  \<^verbatim>\<open>projectGameForPlayer\<close> leaves untouched, this section models it once more with the
  arrays held by reference: a store has game objects and arrays at addresses, the address
  of an array is its index in \<open>arrays\<close>, and a new array is appended. The hands of a game
  object of the store are addresses of arrays.
\<close>

type_synonym addr = nat

record heap =
  sessions :: "addr \<rightharpoonup> addr game"
  arrays :: "string list list"

definition newArray :: "heap \<Rightarrow> string list \<Rightarrow> heap \<times> addr" where
  "newArray h xs = (h\<lparr>arrays := arrays h @ [xs]\<rparr>, length (arrays h))"

definition elements :: "heap \<Rightarrow> addr \<Rightarrow> string list" where
  "elements h a = (if a < length (arrays h) then arrays h ! a else [])"

text \<open>\<^verbatim>\<open>array.sort(cardComparator)\<close> on the array at address \<open>a\<close>.\<close>

definition sortInPlace :: "heap \<Rightarrow> addr \<Rightarrow> heap" where
  "sortInPlace h a = h\<lparr>arrays := (arrays h)[a := sort_js cardComparator (elements h a)]\<rparr>"

text \<open>
  \<^verbatim>\<open>game.hands[playerId] || []\<close> is the stored array itself, or a new empty one;
  \<^verbatim>\<open>[...playerHand]\<close> is a new array with the same elements, and \<^verbatim>\<open>sort\<close> returns the
  array it has sorted. The object literal is evaluated after the sort. The view is
  given with the elements of its arrays, as \<^verbatim>\<open>sendJson\<close> writes it. The result is \<open>None\<close>
  when there is no game object at the address.
\<close>

definition projectGameForPlayer_heap :: "heap \<Rightarrow> addr \<Rightarrow> string \<Rightarrow> (heap \<times> view) option" where
  "projectGameForPlayer_heap h ga pid =
     (case sessions h ga of
        None \<Rightarrow> None
      | Some game \<Rightarrow>
          (case (case hands game pid of Some a \<Rightarrow> (h, a) | None \<Rightarrow> newArray h []) of
             (h1, playerHand) \<Rightarrow>
          case newArray h1 (elements h1 playerHand) of
             (h2, copy) \<Rightarrow>
          (let h3 = sortInPlace h2 copy;
               sortedHand = copy
           in Some (h3,
                \<lparr>view_gameId = gameId game,
                 view_status = status game,
                 view_hostId = hostId game,
                 view_players = map (\<lambda>p. \<lparr>pv_id = playerId p,
                                           pv_name = name p,
                                           pv_position = position p,
                                           isHost = (playerId p = hostId game),
                                           isYou = (playerId p = pid),
                                           handSize = (case hands game (playerId p) of
                                                         Some a \<Rightarrow> length (elements h3 a)
                                                       | None \<Rightarrow> 0)\<rparr>)
                                    (players game),
                 view_hand = elements h3 sortedHand\<rparr>))))"

text \<open>The game object with every hand replaced by the elements of its array.\<close>

definition stored :: "heap \<Rightarrow> addr game \<Rightarrow> string list game" where
  "stored h game =
     \<lparr>gameId = gameId game, hostId = hostId game, status = status game,
      players = players game,
      hands = (\<lambda>pid. map_option (elements h) (hands game pid)),
      createdAt = createdAt game\<rparr>"

section \<open>Sequences of requests\<close>

text \<open>
  The server handles one request after the other. \<open>run\<close> gives the registry after a
  sequence of requests, each with what it takes from outside, and the replies in order.
\<close>

fun run :: "store \<Rightarrow> (env \<times> request) list \<Rightarrow> (store \<times> response list) option" where
  "run games [] = Some (games, [])"
| "run games ((e, req) # rest) =
     (case handleApi e games req of
        None \<Rightarrow> None
      | Some (games', r) \<Rightarrow>
          (case run games' rest of
             None \<Rightarrow> None
           | Some (games'', rs) \<Rightarrow> Some (games'', r # rs)))"

section \<open>Auxiliary definitions of the proofs\<close>

text \<open>The position of a card of the deck in the canonical order, as one number.\<close>

definition cardKey :: "string \<Rightarrow> int" where
  "cardKey c = (case splitCard c of (r, s) \<Rightarrow> 13 * indexOf suits s + indexOf rankOrder r)"

section \<open>Example sessions\<close>

definition ann :: player where
  "ann = \<lparr>playerId = ''h1'', name = ''Ann'', position = Some 0\<rparr>"

definition bob :: player where
  "bob = \<lparr>playerId = ''p2'', name = ''Bob'', position = Some 1\<rparr>"

definition cid :: player where
  "cid = \<lparr>playerId = ''p3'', name = ''Cid'', position = Some 2\<rparr>"

definition dee :: player where
  "dee = \<lparr>playerId = ''p4'', name = ''Dee'', position = Some 3\<rparr>"

text \<open>A session in which Ann holds the four cards of the sorted-hand scenario.\<close>

definition scenario_game :: "string list game" where
  "scenario_game =
     \<lparr>gameId = ''ABCDE'', hostId = ''h1'', status = ''started'', players = [ann, bob],
      hands = [''h1'' \<mapsto> [''3H'', ''AS'', ''10D'', ''KS''], ''p2'' \<mapsto> [''2C'', ''QD'', ''7S'', ''9H'']],
      createdAt = 0\<rparr>"

text \<open>The same session with other cards, as many, in Bob's hand.\<close>

definition scenario_game' :: "string list game" where
  "scenario_game' =
     \<lparr>gameId = ''ABCDE'', hostId = ''h1'', status = ''started'', players = [ann, bob],
      hands = [''h1'' \<mapsto> [''3H'', ''AS'', ''10D'', ''KS''], ''p2'' \<mapsto> [''4C'', ''JD'', ''8S'', ''5H'']],
      createdAt = 0\<rparr>"

text \<open>The scenario session in a store: the two hands are the arrays at 0 and 1.\<close>

definition scenario_heap :: heap where
  "scenario_heap =
     \<lparr>sessions = [0 \<mapsto> \<lparr>gameId = ''ABCDE'', hostId = ''h1'', status = ''started'',
                          players = [ann, bob], hands = [''h1'' \<mapsto> 0, ''p2'' \<mapsto> 1],
                          createdAt = 0\<rparr>],
      arrays = [[''3H'', ''AS'', ''10D'', ''KS''], [''2C'', ''QD'', ''7S'', ''9H'']]\<rparr>"

text \<open>
  A lobby with four players, the registry that holds it, and two sources of draws;
  \<open>dyadic m k\<close> is the double \<open>m / 2 ^ k\<close>.
\<close>

definition dyadic :: "nat \<Rightarrow> nat \<Rightarrow> draw" where
  "dyadic m k = \<lparr>mantissa = m, exponent = k\<rparr>"

definition table_game :: "string list game" where
  "table_game =
     \<lparr>gameId = ''ABCDE'', hostId = ''h1'', status = ''lobby'', players = [ann, bob, cid, dee],
      hands = Map.empty, createdAt = 0\<rparr>"

definition table_store :: store where
  "table_store = [''ABCDE'' \<mapsto> table_game]"

definition env0 :: env where
  "env0 = \<lparr>uuid = ''p5'', now = 1, codeDraws = [dyadic 0 0, dyadic 1 5, dyadic 1 4, dyadic 3 5, dyadic 1 3],
            shuffleDraws = (\<lambda>i. dyadic 0 0)\<rparr>"

definition env1 :: env where
  "env1 = \<lparr>uuid = ''p6'', now = 2, codeDraws = [dyadic 1 1, dyadic 0 0, dyadic 0 0, dyadic 0 0, dyadic 0 0],
            shuffleDraws = (\<lambda>i. dyadic 1 1)\<rparr>"

text \<open>The table after the host has started the game, and after a second start.\<close>

definition dealt_game :: "string list game" where
  "dealt_game = deal (shuffleDraws env0) table_game"

definition redealt_game :: "string list game" where
  "redealt_game = deal (shuffleDraws env1) dealt_game"

text \<open>The lobby of the table when only Ann has arrived.\<close>

definition lobby1 :: "string list game" where
  "lobby1 = table_game\<lparr>players := [ann]\<rparr>"

text \<open>The lobby of the table when only Ann and Bob have arrived.\<close>

definition lobby2 :: "string list game" where
  "lobby2 = table_game\<lparr>players := [ann, bob]\<rparr>"

text \<open>A joiner's request.\<close>

definition joiner :: "string \<Rightarrow> string \<Rightarrow> env \<times> string" where
  "joiner u nm = (env0\<lparr>uuid := u\<rparr>, nm)"

section \<open>Cards: round trip and order\<close>

lemma suit_single: "suit \<in> set suits \<Longrightarrow> \<exists>c. suit = [c]"
  by (auto simp: suits_def)

lemma splitCard_append: "splitCard (rank @ [c]) = (rank, [c])"
  by (simp add: splitCard_def)

lemma in_buildDeck: "c \<in> set buildDeck \<longleftrightarrow> (\<exists>rank\<in>set ranks. \<exists>suit\<in>set suits. c = rank @ suit)"
  by (auto simp: buildDeck_def)

lemma splitCard_deck:
  "rank \<in> set ranks \<Longrightarrow> suit \<in> set suits \<Longrightarrow> splitCard (rank @ suit) = (rank, suit)"
  using suit_single[of suit] by (auto simp: splitCard_append)

text \<open>
  Claim C9. For each of the 52 combinations of a rank and a suit, the card string is the
  rank followed by the suit letter, it is a card of the deck, and \<^verbatim>\<open>splitCard\<close> gives
  the rank and the suit back; "10H" decodes to rank 10 and suit H.
\<close>

theorem card_roundtrip:
  "rank \<in> set ranks \<Longrightarrow> suit \<in> set suits \<Longrightarrow>
     rank @ suit \<in> set buildDeck \<and> splitCard (rank @ suit) = (rank, suit)"
  using suit_single[of suit] by (auto simp: in_buildDeck splitCard_append)

theorem card_roundtrip_witness:
  "''10'' \<in> set ranks \<and> ''H'' \<in> set suits \<and> ''10H'' \<in> set buildDeck \<and> splitCard ''10H'' = (''10'', ''H'')"
  using card_roundtrip[of "''10''" "''H''"] by (simp add: ranks_def suits_def)

lemma length_buildDeck: "length buildDeck = 52"
  by (simp add: buildDeck_def suits_def ranks_def)

lemma distinct_buildDeck: "distinct buildDeck"
  by (simp add: buildDeck_def suits_def ranks_def)

lemma insert_js_insort:
  assumes "\<And>x y. x \<in> S \<Longrightarrow> y \<in> S \<Longrightarrow> (sortCompare cmp x y \<le> 0) = (key x \<le> key y)"
  shows "x \<in> S \<Longrightarrow> set ys \<subseteq> S \<Longrightarrow> insert_js cmp x ys = insort_key key x ys"
  using assms by (induction ys) auto

lemma set_insert_js: "set (insert_js cmp x ys) = insert x (set ys)"
  by (induction ys) auto

lemma mset_insert_js: "mset (insert_js cmp x ys) = add_mset x (mset ys)"
  by (induction ys) auto

lemma mset_sort_js: "mset (sort_js cmp xs) = mset xs"
  by (induction xs) (auto simp: sort_js_def mset_insert_js)

lemma set_sort_js: "set (sort_js cmp xs) = set xs"
  using mset_sort_js[of cmp xs] by (metis set_mset_mset)

lemma sort_js_sort_key:
  assumes "\<And>x y. x \<in> S \<Longrightarrow> y \<in> S \<Longrightarrow> (sortCompare cmp x y \<le> 0) = (key x \<le> key y)"
  shows "set xs \<subseteq> S \<Longrightarrow> sort_js cmp xs = sort_key key xs"
proof (induction xs)
  case Nil
  show ?case by (simp add: sort_js_def)
next
  case (Cons x xs)
  then have eq: "sort_js cmp xs = sort_key key xs" by simp
  have "set (sort_key key xs) \<subseteq> S" using Cons.prems by auto
  with Cons.prems assms have "insert_js cmp x (sort_key key xs) = insort_key key x (sort_key key xs)"
    by (intro insert_js_insort[where S=S]) auto
  with eq show ?case by (simp add: sort_js_def sort_key_def)
qed

lemma suitOrder_index: "s \<in> set suits \<Longrightarrow> suitOrder s = Some (indexOf suits s)"
  by (auto simp: suits_def suitOrder_def)

lemma suit_index_range: "s \<in> set suits \<Longrightarrow> 0 \<le> indexOf suits s \<and> indexOf suits s \<le> 3"
  by (auto simp: suits_def)

lemma suit_index_inj: "s \<in> set suits \<Longrightarrow> s' \<in> set suits \<Longrightarrow> indexOf suits s = indexOf suits s' \<Longrightarrow> s = s'"
  by (auto simp: suits_def)

lemma rank_index_range: "r \<in> set ranks \<Longrightarrow> 0 \<le> indexOf rankOrder r \<and> indexOf rankOrder r \<le> 12"
  by (auto simp: ranks_def rankOrder_def)

lemma cardComparator_key:
  assumes "a \<in> set buildDeck" "b \<in> set buildDeck"
  shows "(sortCompare cardComparator a b \<le> 0) = (cardKey a \<le> cardKey b)"
proof -
  from assms obtain ra sa rb sb where
    a: "a = ra @ sa" "ra \<in> set ranks" "sa \<in> set suits" and
    b: "b = rb @ sb" "rb \<in> set ranks" "sb \<in> set suits"
    by (auto simp: in_buildDeck)
  have sa: "splitCard a = (ra, sa)" and sb: "splitCard b = (rb, sb)"
    using a b splitCard_deck by auto
  note ia = suit_index_range[OF a(3)] rank_index_range[OF a(2)]
  note ib = suit_index_range[OF b(3)] rank_index_range[OF b(2)]
  show ?thesis
  proof (cases "sa = sb")
    case True
    then show ?thesis by (simp add: cardComparator_def sortCompare_def cardKey_def sa sb)
  next
    case False
    then have ne: "indexOf suits sa \<noteq> indexOf suits sb" using suit_index_inj a b by blast
    have cmp: "sortCompare cardComparator a b = indexOf suits sa - indexOf suits sb"
      using False by (simp add: cardComparator_def sortCompare_def sa sb suitOrder_index a(3) b(3) js_minus_def)
    have key: "cardKey a = 13 * indexOf suits sa + indexOf rankOrder ra"
       "cardKey b = 13 * indexOf suits sb + indexOf rankOrder rb"
      by (simp_all add: cardKey_def sa sb)
    show ?thesis unfolding cmp key using ne ia ib by arith
  qed
qed

lemma canonical_key:
  assumes "a \<in> set buildDeck" "b \<in> set buildDeck"
  shows "canonical_le (splitCard a) (splitCard b) = (cardKey a \<le> cardKey b)"
proof -
  from assms obtain ra sa rb sb where
    a: "a = ra @ sa" "ra \<in> set ranks" "sa \<in> set suits" and
    b: "b = rb @ sb" "rb \<in> set ranks" "sb \<in> set suits"
    by (auto simp: in_buildDeck)
  have sa: "splitCard a = (ra, sa)" and sb: "splitCard b = (rb, sb)"
    using a b splitCard_deck by auto
  note ia = suit_index_range[OF a(3)] rank_index_range[OF a(2)]
  note ib = suit_index_range[OF b(3)] rank_index_range[OF b(2)]
  have inj: "sa = sb \<longleftrightarrow> indexOf suits sa = indexOf suits sb" using suit_index_inj a b by blast
  have "canonical_le (ra, sa) (rb, sb) =
     (indexOf suits sa < indexOf suits sb \<or> (sa = sb \<and> indexOf rankOrder ra \<le> indexOf rankOrder rb))"
    by (simp add: canonical_le_def suits_def rankOrder_def)
  with inj ia ib show ?thesis
    by (simp add: cardKey_def sa sb) arith
qed

lemma sort_hand:
  assumes "set hand \<subseteq> set buildDeck"
  shows "sorted_wrt (\<lambda>a b. canonical_le (splitCard a) (splitCard b)) (sort_js cardComparator hand)"
proof -
  have eq: "sort_js cardComparator hand = sort_key cardKey hand"
    using assms cardComparator_key by (intro sort_js_sort_key[where S="set buildDeck"]) auto
  have "sorted (map cardKey (sort_key cardKey hand))" by simp
  then have "sorted_wrt (\<lambda>a b. cardKey a \<le> cardKey b) (sort_key cardKey hand)"
    by (simp add: sorted_map)
  then have "sorted_wrt (\<lambda>a b. canonical_le (splitCard a) (splitCard b)) (sort_key cardKey hand)"
    using assms canonical_key by (elim sorted_wrt_mono_rel[rotated]) auto
  with eq show ?thesis by simp
qed

section \<open>The projected view\<close>

lemma view_hand_project:
  "view_hand (projectGameForPlayer game pid) =
     sort_js cardComparator (case hands game pid of Some h \<Rightarrow> h | None \<Rightarrow> [])"
  by (simp add: projectGameForPlayer_def)

text \<open>
  Claim C7 (as amended). When a player's stored hand consists of cards of the deck, the
  projected hand has the same cards and is sorted by the canonical order: suits in the
  order S, H, D, C, then ranks in the order A, K, Q, J, 10, 9, ..., 2. The hand
  3H, AS, 10D, KS is projected as AS, KS, 3H, 10D.
\<close>

theorem projected_hand_sorted:
  assumes "hands game pid = Some hand" and "set hand \<subseteq> set buildDeck"
  shows "mset (view_hand (projectGameForPlayer game pid)) = mset hand
       \<and> sorted_wrt (\<lambda>a b. canonical_le (splitCard a) (splitCard b))
            (view_hand (projectGameForPlayer game pid))
       \<and> (hand = [''3H'', ''AS'', ''10D'', ''KS''] \<longrightarrow>
            view_hand (projectGameForPlayer game pid) = [''AS'', ''KS'', ''3H'', ''10D''])"
proof -
  have v: "view_hand (projectGameForPlayer game pid) = sort_js cardComparator hand"
    using assms(1) by (simp add: view_hand_project)
  have ex: "sort_js cardComparator [''3H'', ''AS'', ''10D'', ''KS''] = [''AS'', ''KS'', ''3H'', ''10D'']"
    by (simp add: sort_js_def cardComparator_def splitCard_def sortCompare_def suitOrder_def
        rankOrder_def js_minus_def)
  show ?thesis
    unfolding v using sort_hand[OF assms(2)] ex by (simp add: mset_sort_js)
qed

lemma scenario_cards: "set [''3H'', ''AS'', ''10D'', ''KS''] \<subseteq> set buildDeck"
  by (simp add: buildDeck_def suits_def ranks_def)

theorem projected_hand_sorted_witness:
  "hands scenario_game ''h1'' = Some [''3H'', ''AS'', ''10D'', ''KS'']
   \<and> set [''3H'', ''AS'', ''10D'', ''KS''] \<subseteq> set buildDeck
   \<and> view_hand (projectGameForPlayer scenario_game ''h1'') = [''AS'', ''KS'', ''3H'', ''10D'']"
proof -
  have h: "hands scenario_game ''h1'' = Some [''3H'', ''AS'', ''10D'', ''KS'']"
    by (simp add: scenario_game_def)
  from projected_hand_sorted[OF h scenario_cards] h scenario_cards show ?thesis by simp
qed

text \<open>
  The order KS, AS, 10D, 3H is not the projection of the hand 3H, AS, 10D, KS: it has the
  king before the ace and diamonds before hearts.
\<close>

theorem scenario_order_counterexample:
  "view_hand (projectGameForPlayer scenario_game ''h1'') \<noteq> [''KS'', ''AS'', ''10D'', ''3H'']"
  by (simp add: view_hand_project scenario_game_def sort_js_def cardComparator_def splitCard_def
      sortCompare_def suitOrder_def rankOrder_def js_minus_def)

text \<open>
  Claim C3. The view projected for a player holds the cards of that player's own hand
  and, for every player, the id, name, seat, the two flags and the hand size (the fields
  of \<open>player_view\<close>). Two sessions that differ only in the cards, not in the number of
  cards, of the other players have the same view for the player.
\<close>

theorem projection_noninterference:
  assumes "gameId g' = gameId g" and "status g' = status g" and "hostId g' = hostId g"
    and "players g' = players g"
    and "hands g' pid = hands g pid"
    and "\<forall>q. q \<noteq> pid \<longrightarrow>
           (case hands g' q of Some h \<Rightarrow> length h | None \<Rightarrow> 0)
         = (case hands g q of Some h \<Rightarrow> length h | None \<Rightarrow> 0)"
  shows "projectGameForPlayer g' pid = projectGameForPlayer g pid
       \<and> mset (view_hand (projectGameForPlayer g pid))
           = mset (case hands g pid of Some h \<Rightarrow> h | None \<Rightarrow> [])"
proof -
  have "(case hands g' q of Some h \<Rightarrow> length h | None \<Rightarrow> 0)
      = (case hands g q of Some h \<Rightarrow> length h | None \<Rightarrow> 0)" for q
    using assms(5,6) by (cases "q = pid") auto
  then show ?thesis
    using assms(1-5) by (simp add: projectGameForPlayer_def mset_sort_js)
qed

theorem projection_noninterference_witness:
  "hands scenario_game' ''p2'' \<noteq> hands scenario_game ''p2''
   \<and> projectGameForPlayer scenario_game' ''h1'' = projectGameForPlayer scenario_game ''h1''"
proof -
  have sz: "\<forall>q. q \<noteq> ''h1'' \<longrightarrow>
           (case hands scenario_game' q of Some h \<Rightarrow> length h | None \<Rightarrow> 0)
         = (case hands scenario_game q of Some h \<Rightarrow> length h | None \<Rightarrow> 0)"
    by (simp add: scenario_game_def scenario_game'_def)
  have "projectGameForPlayer scenario_game' ''h1'' = projectGameForPlayer scenario_game ''h1''"
    using projection_noninterference[of scenario_game' scenario_game "''h1''", OF _ _ _ _ _ sz]
    by (simp add: scenario_game_def scenario_game'_def)
  then show ?thesis by (simp add: scenario_game_def scenario_game'_def)
qed

section \<open>The projection does not change the session\<close>

lemma newArray_eq:
  "newArray h xs = (h1, a) \<Longrightarrow>
     a = length (arrays h) \<and> sessions h1 = sessions h \<and> arrays h1 = arrays h @ [xs]"
  by (auto simp: newArray_def)

lemma elements_append:
  "arrays h1 = arrays h @ [xs] \<Longrightarrow>
     elements h1 a = (if a = length (arrays h) then xs else elements h a)"
  by (simp add: elements_def nth_append)

lemma sortInPlace_simps:
  "sessions (sortInPlace h c) = sessions h"
  "length (arrays (sortInPlace h c)) = length (arrays h)"
  "arrays h = ys @ [xs] \<Longrightarrow> arrays (sortInPlace h (length ys)) = ys @ [sort_js cardComparator xs]"
  by (simp_all add: sortInPlace_def elements_def)

lemma elements_sortInPlace:
  "elements (sortInPlace h c) a
     = (if a = c \<and> c < length (arrays h) then sort_js cardComparator (elements h c) else elements h a)"
  by (simp add: sortInPlace_def elements_def)

lemma project_heap_steps:
  assumes "sessions h ga = Some game"
    and "(case hands game pid of Some a \<Rightarrow> (h, a) | None \<Rightarrow> newArray h []) = (h1, playerHand)"
    and "newArray h1 (elements h1 playerHand) = (h2, copy)"
  shows "projectGameForPlayer_heap h ga pid = Some (sortInPlace h2 copy,
      \<lparr>view_gameId = gameId game, view_status = status game, view_hostId = hostId game,
       view_players = map (\<lambda>p. \<lparr>pv_id = playerId p, pv_name = name p,
            pv_position = position p, isHost = (playerId p = hostId game),
            isYou = (playerId p = pid),
            handSize = (case hands game (playerId p) of
                          Some b \<Rightarrow> length (elements (sortInPlace h2 copy) b) | None \<Rightarrow> 0)\<rparr>) (players game),
       view_hand = elements (sortInPlace h2 copy) copy\<rparr>)"
  using assms by (simp add: projectGameForPlayer_heap_def Let_def)

lemma elements_extend:
  "a < length (arrays h) \<Longrightarrow> arrays h' = arrays h @ zs \<Longrightarrow> elements h' a = elements h a"
  by (simp add: elements_def nth_append)

lemma stored_extend:
  assumes "\<forall>q a. hands game q = Some a \<longrightarrow> a < length (arrays h)"
    and "arrays h' = arrays h @ zs"
  shows "stored h' game = stored h game"
proof -
  have "map_option (elements h') (hands game q) = map_option (elements h) (hands game q)" for q
    using assms elements_extend by (cases "hands game q") auto
  then show ?thesis by (simp add: stored_def)
qed

lemma handSize_extend:
  assumes "\<forall>q a. hands game q = Some a \<longrightarrow> a < length (arrays h)"
    and "arrays h' = arrays h @ zs"
  shows "(case hands game q of Some b \<Rightarrow> length (elements h' b) | None \<Rightarrow> 0)
       = (case hands (stored h game) q of Some xs \<Rightarrow> length xs | None \<Rightarrow> 0)"
proof (cases "hands game q")
  case None
  then show ?thesis by (simp add: stored_def)
next
  case (Some b)
  with assms(1) have "b < length (arrays h)" by blast
  from elements_extend[OF this assms(2)] Some show ?thesis by (simp add: stored_def)
qed

text \<open>
  Claim C10. Projecting a view does not change the session. In a store where every hand
  of the game is an allocated array, \<^verbatim>\<open>projectGameForPlayer\<close> returns; afterwards every
  game object of the store (code, status, host id, players, hand references) is what it
  was, every array that existed before has the elements it had, in the same order, and
  so has every stored hand; the new arrays come after the old ones: the sort has worked
  on a copy. The view is the one computed from the stored hands.
\<close>

theorem projection_leaves_session:
  assumes "sessions h ga = Some game"
    and "\<forall>q a. hands game q = Some a \<longrightarrow> a < length (arrays h)"
  shows "\<exists>h' v. projectGameForPlayer_heap h ga pid = Some (h', v)
           \<and> sessions h' = sessions h
           \<and> take (length (arrays h)) (arrays h') = arrays h
           \<and> stored h' game = stored h game
           \<and> v = projectGameForPlayer (stored h game) pid"
proof -
  obtain h1 playerHand where
    s1: "(case hands game pid of Some a \<Rightarrow> (h, a) | None \<Rightarrow> newArray h []) = (h1, playerHand)"
    by (cases "case hands game pid of Some a \<Rightarrow> (h, a) | None \<Rightarrow> newArray h []") blast
  obtain h2 copy where s2: "newArray h1 (elements h1 playerHand) = (h2, copy)"
    by (cases "newArray h1 (elements h1 playerHand)") blast
  define h3 where "h3 = sortInPlace h2 copy"
  note run = project_heap_steps[OF assms(1) s1 s2, folded h3_def]
  \<comment> \<open>the first step: the stored array, or a new empty one\<close>
  have h1: "sessions h1 = sessions h" "\<exists>zs. arrays h1 = arrays h @ zs"
    "elements h1 playerHand = (case hands (stored h game) pid of Some xs \<Rightarrow> xs | None \<Rightarrow> [])"
  proof -
    show "sessions h1 = sessions h" "\<exists>zs. arrays h1 = arrays h @ zs"
      using s1 by (auto simp: newArray_def split: option.splits)
    show "elements h1 playerHand = (case hands (stored h game) pid of Some xs \<Rightarrow> xs | None \<Rightarrow> [])"
      using s1 by (auto simp: newArray_def stored_def elements_def split: option.splits)
  qed
  \<comment> \<open>the copy is a new array, and only the copy is sorted\<close>
  from newArray_eq[OF s2] have h2: "copy = length (arrays h1)" "sessions h2 = sessions h1"
    "arrays h2 = arrays h1 @ [elements h1 playerHand]" by auto
  have a3: "arrays h3 = arrays h1 @ [sort_js cardComparator (elements h1 playerHand)]"
    unfolding h3_def h2(1) using h2(3) by (simp add: sortInPlace_def elements_def)
  with h1(2) obtain zs where ext: "arrays h3 = arrays h @ zs" by auto
  have s3: "sessions h3 = sessions h"
    by (simp add: h3_def sortInPlace_simps h2 h1)
  have hand: "elements h3 copy = sort_js cardComparator (elements h1 playerHand)"
    by (simp add: elements_def a3 h2(1))
  have "\<lparr>view_gameId = gameId game, view_status = status game, view_hostId = hostId game,
       view_players = map (\<lambda>p. \<lparr>pv_id = playerId p, pv_name = name p,
            pv_position = position p, isHost = (playerId p = hostId game),
            isYou = (playerId p = pid),
            handSize = (case hands game (playerId p) of
                          Some b \<Rightarrow> length (elements h3 b) | None \<Rightarrow> 0)\<rparr>) (players game),
       view_hand = elements h3 copy\<rparr> = projectGameForPlayer (stored h game) pid"
    unfolding hand h1(3) handSize_extend[OF assms(2) ext]
    by (simp add: projectGameForPlayer_def) (simp add: stored_def)
  with run s3 ext stored_extend[OF assms(2) ext] show ?thesis by simp
qed

theorem projection_leaves_session_witness:
  "sessions scenario_heap 0 \<noteq> None
   \<and> (\<exists>h' v. projectGameForPlayer_heap scenario_heap 0 ''h1'' = Some (h', v)
        \<and> sessions h' = sessions scenario_heap
        \<and> take (length (arrays scenario_heap)) (arrays h') = arrays scenario_heap
        \<and> view_hand v = [''AS'', ''KS'', ''3H'', ''10D''])"
proof -
  let ?g = "\<lparr>gameId = ''ABCDE'', hostId = ''h1'', status = ''started'',
              players = [ann, bob], hands = [''h1'' \<mapsto> 0::nat, ''p2'' \<mapsto> 1],
              createdAt = 0\<rparr>"
  have g: "sessions scenario_heap 0 = Some ?g" by (simp add: scenario_heap_def)
  have refs: "\<forall>q a. hands ?g q = Some a \<longrightarrow> a < length (arrays scenario_heap)"
    by (simp add: scenario_heap_def)
  have st: "view_hand (projectGameForPlayer (stored scenario_heap ?g) ''h1'') = [''AS'', ''KS'', ''3H'', ''10D'']"
    by (simp add: projectGameForPlayer_def stored_def scenario_heap_def elements_def
      sort_js_def cardComparator_def splitCard_def sortCompare_def suitOrder_def
        rankOrder_def js_minus_def)
  from projection_leaves_session[OF g refs, of "''h1''"] obtain h' v where
    "projectGameForPlayer_heap scenario_heap 0 ''h1'' = Some (h', v)"
    "sessions h' = sessions scenario_heap"
    "take (length (arrays scenario_heap)) (arrays h') = arrays scenario_heap"
    "v = projectGameForPlayer (stored scenario_heap ?g) ''h1''"
    by blast
  with st g show ?thesis by simp
qed

section \<open>Start\<close>

lemma generateCode_fresh: "generateCode games draws = Some code \<Longrightarrow> games code = None"
  by (induction games draws rule: generateCode.induct) (auto simp: Let_def split: if_splits)

lemma createGame_host:
  "createGame games draws u t nm = Some (games', g, p) \<Longrightarrow>
     games (gameId g) = None \<and> games' = games(gameId g \<mapsto> g) \<and> hostId g = u \<and> playerId p = u
     \<and> players g = [p] \<and> position p = Some 0 \<and> status g = ''lobby'' \<and> hands g = Map.empty"
  by (auto simp: createGame_def Let_def generateCode_fresh split: option.splits)

lemma hostId_joinGame: "hostId (fst (joinGame game nm u)) = hostId game"
  by (simp add: joinGame_def Let_def)

lemma hostId_deal: "hostId (deal draws game) = hostId game"
  by (simp add: deal_def Let_def)

lemma status_deal: "status (deal draws game) = ''started''"
  by (simp add: deal_def Let_def)

lemma players_deal: "players (deal draws game) = players game"
  by (simp add: deal_def Let_def)

lemma host_kept:
  assumes "handleApi e games req = Some (games', r)" and "games c = Some g"
  shows "\<exists>g'. games' c = Some g' \<and> hostId g' = hostId g"
proof (cases req)
  case (Create nm)
  with assms show ?thesis
    by (auto simp: Let_def split: if_splits option.splits dest!: createGame_host)
next
  case (Join gid nm)
  with assms show ?thesis
    by (auto simp: Let_def joinGame_def split: if_splits option.splits)
next
  case (Start gid pid)
  with assms show ?thesis
    by (auto simp: hostId_deal split: if_splits option.splits)
next
  case (State gid pid)
  with assms show ?thesis
    by (auto split: if_splits option.splits)
qed

text \<open>
  Claim C2 (as amended). For a session with exactly four players, a start by the host
  succeeds and sets the status of the session to the string "started".
\<close>

theorem start_sets_started:
  assumes "games gid = Some game" and "hostId game = pid" and "length (players game) = 4"
  shows "handleApi e games (Start gid pid) = Some (games(gid \<mapsto> deal (shuffleDraws e) game), Ok)
       \<and> status (deal (shuffleDraws e) game) = ''started''"
  using assms by (simp add: status_deal)

theorem start_sets_started_witness:
  "table_store ''ABCDE'' = Some table_game \<and> hostId table_game = ''h1''
   \<and> length (players table_game) = 4 \<and> status table_game = ''lobby''
   \<and> handleApi env0 table_store (Start ''ABCDE'' ''h1'')
        = Some (table_store(''ABCDE'' \<mapsto> deal (shuffleDraws env0) table_game), Ok)
   \<and> status (deal (shuffleDraws env0) table_game) = ''started''"
proof -
  have g: "table_store ''ABCDE'' = Some table_game" by (simp add: table_store_def)
  have h: "hostId table_game = ''h1''" and n: "length (players table_game) = 4"
    and l: "status table_game = ''lobby''"
    by (simp_all add: table_game_def)
  from start_sets_started[where games = table_store and gid = "''ABCDE''" and game = table_game
        and pid = "''h1''" and e = env0] g h n l
  show ?thesis by simp
qed

text \<open>
  After the host of a lobby of four has started the game, the status is not the string
  "dealt".
\<close>

theorem status_dealt_counterexample:
  "handleApi env0 table_store (Start ''ABCDE'' ''h1'')
        = Some (table_store(''ABCDE'' \<mapsto> deal (shuffleDraws env0) table_game), Ok)
   \<and> status (deal (shuffleDraws env0) table_game) \<noteq> ''dealt''"
  by (simp add: table_store_def table_game_def status_deal)

section \<open>Lookup of the session code\<close>

lemma join_after_start:
  assumes "games (toUpperCase (trim gid)) = Some game" and "status game \<noteq> ''lobby''"
  shows "handleApi e games (Join gid nm) = Some (games, Failure SessionAlreadyStarted)"
  using assms by (simp add: Let_def)

lemma join_resolves:
  assumes "games (toUpperCase (trim gid)) = Some game"
  shows "\<exists>games' r. handleApi e games (Join gid nm) = Some (games', r) \<and> r \<noteq> Failure NotFound"
  using assms by (auto simp: Let_def split: prod.splits)

text \<open>
  Claim C6 (as amended). Join normalises the code it is given (white space trimmed,
  then upper case) before the lookup, so a code that differs from the stored code only
  in letter case finds the session and does not fail with NotFound. Start and state look
  up the code as it is given: when that string is not itself a stored code they fail
  with NotFound and leave the registry as it was.
\<close>

theorem code_lookup:
  assumes "games c = Some game" and "toUpperCase (trim gid) = c"
  shows "(\<exists>games' r. handleApi e games (Join gid nm) = Some (games', r) \<and> r \<noteq> Failure NotFound)
       \<and> (games gid = None \<longrightarrow>
            handleApi e games (Start gid pid) = Some (games, Failure NotFound)
          \<and> handleApi e games (State gid pid) = Some (games, Failure NotFound))"
  using assms join_resolves[where games = games and gid = gid and game = game] by auto

theorem code_lookup_witness:
  "table_store ''ABCDE'' = Some table_game \<and> toUpperCase (trim ''abcde'') = ''ABCDE''
   \<and> (\<exists>games' r. handleApi env0 table_store (Join ''abcde'' ''Eve'') = Some (games', r)
         \<and> r \<noteq> Failure NotFound)
   \<and> handleApi env0 table_store (Start ''abcde'' ''h1'') = Some (table_store, Failure NotFound)
   \<and> handleApi env0 table_store (State ''abcde'' ''h1'') = Some (table_store, Failure NotFound)"
proof -
  have g: "table_store ''ABCDE'' = Some table_game" by (simp add: table_store_def)
  have u: "toUpperCase (trim ''abcde'') = ''ABCDE''"
    by (simp add: toUpperCase_def trim_def toUpperChar_def isWhitespace_def)
  have n: "table_store ''abcde'' = None" by (simp add: table_store_def)
  from code_lookup[where games = table_store and c = "''ABCDE''" and game = table_game
      and gid = "''abcde''" and e = env0 and pid = "''h1''" and nm = "''Eve''"] g u n
  show ?thesis by blast
qed

text \<open>
  A start with the stored code in lower case fails with NotFound.
\<close>

theorem lowercase_start_counterexample:
  "table_store ''ABCDE'' = Some table_game \<and> toUpperCase ''abcde'' = ''ABCDE''
   \<and> handleApi env0 table_store (Start ''abcde'' ''h1'') = Some (table_store, Failure NotFound)"
  by (simp add: table_store_def toUpperCase_def toUpperChar_def)

section \<open>A second start\<close>

lemma dealEach_table:
  "dealEach deck 0 [ann, bob, cid, dee] Map.empty ''h1'' = Some (slice deck 0 13)"
  by (simp add: ann_def bob_def cid_def dee_def)

lemma sort_table: "sort_js byPosition [ann, bob, cid, dee] = [ann, bob, cid, dee]"
  by (simp add: sort_js_def byPosition_def sortCompare_def js_minus_def ann_def bob_def cid_def dee_def)

lemma hand_of_host:
  assumes "players game = [ann, bob, cid, dee]"
  shows "hands (deal draws game) ''h1'' = Some (take 13 (shuffle draws buildDeck))"
  using assms by (simp add: deal_def Let_def sort_table dealEach_table slice_def del: dealEach.simps)

lemma index0: "randomIndex (dyadic 0 0) n = 0"
  by (simp add: randomIndex_def round53_def dyadic_def)

lemma index_half: "n < 2 ^ 53 \<Longrightarrow> randomIndex (dyadic 1 1) n = n div 2"
  by (simp add: randomIndex_def round53_def dyadic_def)

text \<open>With every draw 0 the card at index 1 comes first.\<close>

lemma shuffle_zero_first:
  "n < length xs \<Longrightarrow> shuffleFrom (\<lambda>i. dyadic 0 0) (Suc n) xs ! 0 = xs ! 1"
proof (induction n arbitrary: xs)
  case 0
  then show ?case by (simp add: index0)
next
  case (Suc n)
  let ?ys = "xs[Suc (Suc n) := xs ! 0, 0 := xs ! Suc (Suc n)]"
  have "shuffleFrom (\<lambda>i. dyadic 0 0) (Suc (Suc n)) xs = shuffleFrom (\<lambda>i. dyadic 0 0) (Suc n) ?ys"
    by (simp add: index0)
  moreover have "shuffleFrom (\<lambda>i. dyadic 0 0) (Suc n) ?ys ! 0 = ?ys ! 1"
    using Suc.prems by (intro Suc.IH) simp
  moreover have "?ys ! 1 = xs ! 1" by simp
  ultimately show ?case by simp
qed

text \<open>With every draw 1/2 the first card stays.\<close>

lemma shuffle_half_first:
  assumes half: "\<And>i m. m < 2 ^ 53 \<Longrightarrow> randomIndex (draws i) m = m div 2"
  shows "n < length xs \<Longrightarrow> length xs < 2 ^ 53 \<Longrightarrow> shuffleFrom draws n xs ! 0 = xs ! 0"
proof (induction n arbitrary: xs)
  case 0
  then show ?case by simp
next
  case (Suc n)
  let ?j = "Suc (Suc n) div 2"
  let ?ys = "xs[Suc n := xs ! ?j, ?j := xs ! Suc n]"
  from Suc.prems have "Suc (Suc n) < (2::nat) ^ 53" by linarith
  then have j: "randomIndex (draws (Suc n)) (Suc (Suc n)) = ?j" by (rule half)
  have "shuffleFrom draws (Suc n) xs = shuffleFrom draws n ?ys"
    by (simp add: j Let_def)
  moreover have "shuffleFrom draws n ?ys ! 0 = ?ys ! 0"
    using Suc.prems by (intro Suc.IH) simp_all
  moreover have "?ys ! 0 = xs ! 0" by simp
  ultimately show ?case by simp
qed

lemma first_card0: "shuffle (shuffleDraws env0) buildDeck ! 0 = ''KS''"
proof -
  have "shuffle (shuffleDraws env0) buildDeck = shuffleFrom (\<lambda>i. dyadic 0 0) (Suc 50) buildDeck"
    by (simp add: shuffle_def length_buildDeck env0_def)
  moreover have "shuffleFrom (\<lambda>i. dyadic 0 0) (Suc 50) buildDeck ! 0 = buildDeck ! 1"
    by (rule shuffle_zero_first) (simp add: length_buildDeck)
  moreover have "buildDeck ! 1 = ''KS''" by (simp add: buildDeck_def suits_def ranks_def)
  ultimately show ?thesis by simp
qed

lemma first_card1: "shuffle (shuffleDraws env1) buildDeck ! 0 = ''AS''"
proof -
  have "shuffle (shuffleDraws env1) buildDeck = shuffleFrom (\<lambda>i. dyadic 1 1) 51 buildDeck"
    by (simp add: shuffle_def length_buildDeck env1_def)
  moreover have "shuffleFrom (\<lambda>i. dyadic 1 1) 51 buildDeck ! 0 = buildDeck ! 0"
  proof (rule shuffle_half_first)
    show "randomIndex (dyadic 1 1) m = m div 2" if "m < 2 ^ 53" for m
      using that by (rule index_half)
  qed (simp_all add: length_buildDeck)
  moreover have "buildDeck ! 0 = ''AS''" by (simp add: buildDeck_def suits_def ranks_def)
  ultimately show ?thesis by simp
qed

text \<open>
  Claim C1, the code at the failing input. A join on a session that is no longer in the
  lobby fails with SessionAlreadyStarted and changes nothing (\<open>join_after_start\<close>). A
  start does not look at the status: when the host of the table starts the game a second
  time, the request succeeds again and the cards are dealt again, so that the host's hand
  is no longer the one of the first deal.
\<close>

theorem second_start_redeals:
  "run table_store [(env0, Start ''ABCDE'' ''h1''), (env1, Start ''ABCDE'' ''h1'')]
      = Some (table_store(''ABCDE'' \<mapsto> redealt_game), [Ok, Ok])
   \<and> status dealt_game = ''started''
   \<and> hands redealt_game ''h1'' \<noteq> hands dealt_game ''h1''"
proof -
  have p0: "players table_game = [ann, bob, cid, dee]" and h0: "hostId table_game = ''h1''"
    by (simp_all add: table_game_def)
  have p1: "players dealt_game = [ann, bob, cid, dee]" and h1: "hostId dealt_game = ''h1''"
    by (simp_all add: dealt_game_def players_deal hostId_deal p0 h0)
  have first: "handleApi env0 table_store (Start ''ABCDE'' ''h1'')
      = Some (table_store(''ABCDE'' \<mapsto> dealt_game), Ok)"
    by (simp add: table_store_def p0 h0 dealt_game_def)
  have second: "handleApi env1 (table_store(''ABCDE'' \<mapsto> dealt_game)) (Start ''ABCDE'' ''h1'')
      = Some (table_store(''ABCDE'' \<mapsto> redealt_game), Ok)"
    by (simp add: p1 h1 redealt_game_def)
  have a: "hands dealt_game ''h1'' = Some (take 13 (shuffle (shuffleDraws env0) buildDeck))"
    unfolding dealt_game_def by (rule hand_of_host[OF p0])
  have b: "hands redealt_game ''h1'' = Some (take 13 (shuffle (shuffleDraws env1) buildDeck))"
    unfolding redealt_game_def by (rule hand_of_host[OF p1])
  have "take 13 (shuffle (shuffleDraws env1) buildDeck) \<noteq> take 13 (shuffle (shuffleDraws env0) buildDeck)"
  proof
    assume "take 13 (shuffle (shuffleDraws env1) buildDeck) = take 13 (shuffle (shuffleDraws env0) buildDeck)"
    then have "take 13 (shuffle (shuffleDraws env1) buildDeck) ! 0
             = take 13 (shuffle (shuffleDraws env0) buildDeck) ! 0" by simp
    then show False by (simp add: first_card0 first_card1)
  qed
  with a b first second show ?thesis by (simp add: dealt_game_def status_deal)
qed

section \<open>The deal\<close>

text \<open>
  The index that \<^verbatim>\<open>Math.floor(Math.random() * n)\<close> gives is below \<open>n\<close>, although the
  product of doubles is rounded. The rounding can reach the next integer, as it does for
  the draw \<open>1228254443828317 / 2 ^ 52\<close> and \<open>n = 11\<close>, where the exact product is just
  below 3 and the index is 3; it cannot reach \<open>n\<close>.
\<close>

lemma bitlen_bounds: "0 < n \<Longrightarrow> 2 ^ (bitlen n - 1) \<le> n \<and> n < 2 ^ bitlen n"
proof (induction n rule: bitlen.induct)
  case (1 n)
  show ?case
  proof (cases "n div 2 = 0")
    case True
    with 1(2) have "n = 1" by (simp add: div_eq_0_iff) 
    then show ?thesis by (simp add: bitlen.simps[of "Suc 0"] bitlen.simps[of 0])
  next
    case False
    then have pos: "0 < n div 2" by simp
    from 1(1)[OF _ pos] 1(2) have ih: "2 ^ (bitlen (n div 2) - 1) \<le> n div 2"
      "n div 2 < 2 ^ bitlen (n div 2)" by auto
    have bl: "bitlen n = Suc (bitlen (n div 2))" using 1(2) by (simp add: bitlen.simps[of n])
    have "0 < bitlen (n div 2)" using pos by (simp add: bitlen.simps[of "n div 2"])
    then obtain l where l: "bitlen (n div 2) = Suc l" by (cases "bitlen (n div 2)") auto
    from ih l have "2 ^ l \<le> n div 2" "n div 2 < 2 ^ Suc l" by auto
    then have "2 * 2 ^ l \<le> n" "n < 2 * 2 ^ Suc l" by arith+
    then show ?thesis by (simp add: bl l)
  qed
qed

lemma bitlen_eq:
  assumes "2 ^ k \<le> n" and "n < 2 ^ Suc k"
  shows "bitlen n = Suc k"
proof -
  from assms(1) have pos: "0 < n" by (metis less_le_trans zero_less_numeral zero_less_power)
  from bitlen_bounds[OF pos] have lo: "2 ^ (bitlen n - 1) \<le> n" and hi: "n < 2 ^ bitlen n" by auto
  from lo assms(2) have "(2::nat) ^ (bitlen n - 1) < 2 ^ Suc k" by (rule le_less_trans)
  then have "bitlen n - 1 < Suc k" by (simp only: power_strict_increasing_iff)
  moreover from assms(1) hi have "(2::nat) ^ k < 2 ^ bitlen n" by (rule le_less_trans)
  then have "k < bitlen n" by (simp only: power_strict_increasing_iff)
  ultimately show ?thesis by simp
qed

lemma rounded_product_example:
  "randomIndex (dyadic 1228254443828317 52) 11 = 3
   \<and> (1228254443828317 * 11) div 2 ^ 52 = (2::nat)"
proof -
  have "bitlen 13510798882111487 = 54"
    using bitlen_eq[of 53 13510798882111487] by simp
  then show ?thesis
    by (simp add: randomIndex_def round53_def dyadic_def Let_def)
qed

lemma round53_below:
  assumes m53: "m < 2 ^ 53" and mk: "m < 2 ^ k" and n0: "0 < n" and n53: "n < 2 ^ 53"
  shows "round53 (m * n) < n * 2 ^ k"
proof (cases "m * n < 2 ^ 53")
  case True
  from mk n0 have "m * n < 2 ^ k * n" by simp
  with True show ?thesis by (simp add: round53_def mult.commute)
next
  case False
  define N where "N = m * n"
  define b where "b = bitlen N - 53"
  define q where "q = N div 2 ^ b"
  define rest where "rest = N mod 2 ^ b"
  from False have big: "2 ^ 53 \<le> N" by (simp add: N_def)
  then have Npos: "0 < N" by (metis less_le_trans zero_less_numeral zero_less_power)
  from bitlen_bounds[OF Npos] have lo: "2 ^ (bitlen N - 1) \<le> N" and hi: "N < 2 ^ bitlen N" by auto
  from big hi have "(2::nat) ^ 53 < 2 ^ bitlen N" by simp
  then have len: "53 < bitlen N" by (simp only: power_strict_increasing_iff) 
  then have b1: "1 \<le> b" and bl: "bitlen N = 53 + b" by (simp_all add: b_def)
  from lo bl have lo': "2 ^ (52 + b) \<le> N" by simp
  \<comment> \<open>the factor \<open>n\<close> is more than half a unit in the last place\<close>
  have nbig: "2 ^ (b - 1) < n"
  proof (rule ccontr)
    assume "\<not> 2 ^ (b - 1) < n"
    then have "n \<le> 2 ^ (b - 1)" by simp
    then have "m * n \<le> m * 2 ^ (b - 1)" by simp
    also have "\<dots> < 2 ^ 53 * 2 ^ (b - 1)" using m53 by simp
    also have "\<dots> = (2::nat) ^ (52 + b)"
    proof -
      from b1 obtain c where c: "b = Suc c" by (cases b) auto
      have "(2::nat) ^ 53 * 2 ^ (b - 1) = 2 ^ (53 + c)" by (simp only: c diff_Suc_1 power_add)
      moreover have "52 + b = 53 + c" by (simp add: c)
      ultimately show ?thesis by simp
    qed
    finally show False using lo' by (simp add: N_def)
  qed
  \<comment> \<open>the bound \<open>n * 2 ^ k\<close> is a multiple of the unit in the last place\<close>
  have "N < 2 ^ k * 2 ^ 53"
  proof -
    have "m * n < 2 ^ k * n" using mk n0 by simp
    also have "\<dots> < 2 ^ k * 2 ^ 53" using n53 by simp
    finally show ?thesis by (simp add: N_def)
  qed
  with lo' have "(2::nat) ^ (52 + b) < 2 ^ (k + 53)" by (simp add: power_add)
  then have "52 + b < k + 53" by (simp only: power_strict_increasing_iff)
  then have bk: "b \<le> k" by simp
  define t where "t = n * 2 ^ (k - b)"
  have T: "n * 2 ^ k = t * 2 ^ b"
    using bk by (simp add: t_def power_add[symmetric])
  have NT: "N + n \<le> t * 2 ^ b"
  proof -
    from mk have "m + 1 \<le> 2 ^ k" by simp
    then have "(m + 1) * n \<le> 2 ^ k * n" by (rule mult_le_mono1)
    then show ?thesis by (simp add: N_def T[symmetric] mult.commute)
  qed
  with n0 have "N < t * 2 ^ b" by simp
  then have qt: "q < t" by (simp add: q_def div_less_iff_less_mult)
  have Nq: "N = q * 2 ^ b + rest"
    unfolding q_def rest_def by (rule div_mult_mod_eq[symmetric])
  have r53: "round53 N = (if 2 ^ (b - 1) < rest \<or> (rest = 2 ^ (b - 1) \<and> odd q) then q + 1 else q) * 2 ^ b"
    using False by (simp add: round53_def N_def[symmetric] Let_def b_def[symmetric] q_def[symmetric] rest_def[symmetric])
  have "(if 2 ^ (b - 1) < rest \<or> (rest = 2 ^ (b - 1) \<and> odd q) then q + 1 else q) < t"
  proof (rule ccontr)
    assume "\<not> (if 2 ^ (b - 1) < rest \<or> (rest = 2 ^ (b - 1) \<and> odd q) then q + 1 else q) < t"
    with qt have up: "2 ^ (b - 1) \<le> rest" and top: "q + 1 = t"
      by (auto split: if_splits)
    have "(2::nat) ^ b = 2 ^ (b - 1) + 2 ^ (b - 1)" using b1 by (cases b) simp_all
    then have "t * 2 ^ b = q * 2 ^ b + 2 ^ (b - 1) + 2 ^ (b - 1)" using top[symmetric] by simp
    also have "\<dots> \<le> N + 2 ^ (b - 1)" using up by (simp add: Nq)
    finally have "N + n \<le> N + 2 ^ (b - 1)" using NT by simp
    with nbig show False by simp
  qed
  then have "round53 N < t * 2 ^ b" by (simp add: r53)
  then show ?thesis by (simp add: T N_def)
qed

lemma randomIndex_less:
  assumes "unit_draw r" and "0 < n" and "n < 2 ^ 53"
  shows "randomIndex r n < n"
proof -
  from assms have "round53 (mantissa r * n) < n * 2 ^ exponent r"
    by (intro round53_below) (simp_all add: unit_draw_def)
  then show ?thesis by (simp add: randomIndex_def div_less_iff_less_mult)
qed

lemma length_shuffleFrom: "length (shuffleFrom draws n array) = length array"
  by (induction n arbitrary: array) (simp_all add: Let_def)

lemma mset_shuffleFrom:
  assumes "\<forall>i. unit_draw (draws i)"
  shows "n < length array \<Longrightarrow> length array < 2 ^ 53
           \<Longrightarrow> mset (shuffleFrom draws n array) = mset array"
proof (induction n arbitrary: array)
  case 0
  show ?case by simp
next
  case (Suc n)
  let ?j = "randomIndex (draws (Suc n)) (Suc n + 1)"
  let ?swapped = "array[Suc n := array ! ?j, ?j := array ! Suc n]"
  from Suc.prems have "Suc n + 1 < (2::nat) ^ 53" by simp
  with assms have "?j < Suc n + 1" by (intro randomIndex_less) auto
  with Suc.prems have j: "?j < length array" by simp
  have "mset ?swapped = mset array"
    using Suc.prems j by (simp add: mset_swap)
  moreover have "mset (shuffleFrom draws n ?swapped) = mset ?swapped"
    using Suc.prems by (intro Suc.IH) simp_all
  ultimately show ?case by (simp add: Let_def)
qed

lemma mset_shuffle:
  assumes "\<forall>i. unit_draw (draws i)" and "length array < 2 ^ 53"
  shows "mset (shuffle draws array) = mset array"
proof (cases "array = []")
  case True
  then show ?thesis by (simp add: shuffle_def)
next
  case False
  then have "length array - 1 < length array" by (cases array) auto
  from mset_shuffleFrom[OF assms(1) this assms(2)] show ?thesis by (simp add: shuffle_def)
qed

text \<open>What the loop of \<open>deal\<close> stores for the players of a list with distinct ids.\<close>

lemma dealEach_other:
  "q \<notin> playerId ` set ps \<Longrightarrow> dealEach deck idx ps hs q = hs q"
  by (induction ps arbitrary: idx hs) (auto simp: Let_def)

lemma dealEach_nth:
  assumes "distinct (map playerId ps)" and "k < length ps"
  shows "dealEach deck idx ps hs (playerId (ps ! k))
           = Some (slice deck ((idx + k) * 13) ((idx + k) * 13 + 13))"
  using assms
proof (induction ps arbitrary: idx hs k)
  case Nil
  then show ?case by simp
next
  case (Cons p ps)
  show ?case
  proof (cases k)
    case 0
    from Cons.prems have "playerId p \<notin> playerId ` set ps" by auto
    with 0 show ?thesis by (simp add: Let_def dealEach_other)
  next
    case (Suc k')
    with Cons.prems have "distinct (map playerId ps)" "k' < length ps" by auto
    from Cons.IH[OF this, of "Suc idx"] Suc show ?thesis by (simp add: Let_def)
  qed
qed

lemma dom_dealEach: "dom (dealEach deck idx ps hs) = dom hs \<union> playerId ` set ps"
  by (induction ps arbitrary: idx hs) (auto simp: Let_def)

text \<open>Slices of a list without repetitions.\<close>

lemma length_slice: "stop \<le> length xs \<Longrightarrow> length (slice xs start stop) = stop - start"
  by (simp add: slice_def)

lemma four_slices:
  assumes "length xs = 52"
  shows "slice xs 0 13 @ slice xs 13 26 @ slice xs 26 39 @ slice xs 39 52 = xs"
proof -
  have a: "take 13 (drop 26 xs) @ drop 39 xs = drop 26 xs"
    using append_take_drop_id[of 13 "drop 26 xs"] by simp
  have b: "take 13 (drop 13 xs) @ drop 26 xs = drop 13 xs"
    using append_take_drop_id[of 13 "drop 13 xs"] by simp
  have c: "take 13 xs @ drop 13 xs = xs" by simp
  have "slice xs 0 13 @ slice xs 13 26 @ slice xs 26 39 @ slice xs 39 52
      = take 13 xs @ take 13 (drop 13 xs) @ take 13 (drop 26 xs) @ drop 39 xs"
    using assms by (simp add: slice_def)
  also have "\<dots> = xs" by (simp only: a b c)
  finally show ?thesis .
qed

lemma byPosition_key:
  assumes "position x \<noteq> None" and "position y \<noteq> None"
  shows "(sortCompare byPosition x y \<le> 0) = (the (position x) \<le> the (position y))"
  using assms by (auto simp: sortCompare_def byPosition_def js_minus_def)

lemma seated_sorted:
  assumes "\<forall>p\<in>set ps. position p \<noteq> None"
  shows "sorted_wrt (\<lambda>a b. \<exists>m n. position a = Some m \<and> position b = Some n \<and> m \<le> n)
           (sort_js byPosition ps)"
proof -
  have eq: "sort_js byPosition ps = sort_key (\<lambda>p. the (position p)) ps"
    using assms byPosition_key
    by (intro sort_js_sort_key[where S = "{p. position p \<noteq> None}"]) auto
  have "sorted (map (\<lambda>p. the (position p)) (sort_key (\<lambda>p. the (position p)) ps))" by simp
  then have "sorted_wrt (\<lambda>a b. the (position a) \<le> the (position b)) (sort_key (\<lambda>p. the (position p)) ps)"
    by (simp add: sorted_map)
  then have "sorted_wrt (\<lambda>a b. \<exists>m n. position a = Some m \<and> position b = Some n \<and> m \<le> n)
      (sort_key (\<lambda>p. the (position p)) ps)"
  proof (rule sorted_wrt_mono_rel[rotated])
    fix x y
    assume "x \<in> set (sort_key (\<lambda>p. the (position p)) ps)"
      and "y \<in> set (sort_key (\<lambda>p. the (position p)) ps)"
      and le: "the (position x) \<le> the (position y)"
    then have "x \<in> set ps" "y \<in> set ps" by simp_all
    with assms obtain m n where "position x = Some m" "position y = Some n" by blast
    with le show "\<exists>m n. position x = Some m \<and> position y = Some n \<and> m \<le> n" by simp
  qed
  with eq show ?thesis by simp
qed

lemma hands_deal:
  "hands (deal draws game)
     = dealEach (shuffle draws buildDeck) 0 (sort_js byPosition (players game)) Map.empty"
  by (simp add: deal_def Let_def)

lemma less_four: "k < 4 \<Longrightarrow> k = 0 \<or> k = 1 \<or> k = 2 \<or> k = (3::nat)"
  by arith

lemma slices_of_deck:
  assumes "length deck = 52" and "distinct deck" and "k < 4"
  shows "length (slice deck (13 * k) (13 * k + 13)) = 13"
    and "distinct (slice deck (13 * k) (13 * k + 13))"
    and "set (slice deck (13 * k) (13 * k + 13)) \<subseteq> set deck"
    and "k' < 4 \<Longrightarrow> k \<noteq> k' \<Longrightarrow>
          set (slice deck (13 * k) (13 * k + 13)) \<inter> set (slice deck (13 * k') (13 * k' + 13)) = {}"
proof -
  show "length (slice deck (13 * k) (13 * k + 13)) = 13"
    using assms(1,3) by (simp add: slice_def)
  show "distinct (slice deck (13 * k) (13 * k + 13))"
    using assms(2) by (simp add: slice_def)
  show "set (slice deck (13 * k) (13 * k + 13)) \<subseteq> set deck"
    by (metis slice_def set_take_subset set_drop_subset subset_trans)
  have d: "distinct (slice deck 0 13 @ slice deck 13 26 @ slice deck 26 39 @ slice deck 39 52)"
    using assms(1,2) by (simp only: four_slices)
  show "set (slice deck (13 * k) (13 * k + 13)) \<inter> set (slice deck (13 * k') (13 * k' + 13)) = {}"
    if "k' < 4" "k \<noteq> k'"
    using less_four[OF assms(3)] less_four[OF that(1)] that(2) d by auto
qed

lemma union_slices:
  assumes "length deck = 52"
  shows "(\<Union>k\<in>{0, 1, 2, 3::nat}. set (slice deck (13 * k) (13 * k + 13))) = set deck"
proof -
  have "set (slice deck 0 13 @ slice deck 13 26 @ slice deck 26 39 @ slice deck 39 52) = set deck"
    using assms by (simp only: four_slices)
  then show ?thesis by auto
qed

text \<open>
  Claim C4. For a session with exactly four players (with distinct ids, each with a
  seat), after the deal: the shuffled deck is a permutation of the 52 distinct cards of
  the full deck, one for each rank and suit; the player who is \<open>k\<close>-th in ascending seat order holds the slice
  \<open>[13k, 13k + 13)\<close> of the shuffled deck; every player holds exactly 13 cards, all
  different; the hands of two players are disjoint; the union of the hands is the full
  deck; and only the four players hold a hand.
\<close>

theorem deal_partitions_deck:
  assumes four: "length (players game) = 4"
    and ids: "distinct (map playerId (players game))"
    and seats: "\<forall>p\<in>set (players game). position p \<noteq> None"
    and draws: "\<forall>i. unit_draw (draws i)"
  shows "mset (shuffle draws buildDeck) = mset buildDeck
       \<and> length buildDeck = 52 \<and> distinct buildDeck
       \<and> set buildDeck = {rank @ suit | rank suit. rank \<in> set ranks \<and> suit \<in> set suits}
       \<and> mset (sort_js byPosition (players game)) = mset (players game)
       \<and> sorted_wrt (\<lambda>a b. \<exists>m n. position a = Some m \<and> position b = Some n \<and> m \<le> n)
            (sort_js byPosition (players game))
       \<and> (\<forall>k<4. hands (deal draws game) (playerId (sort_js byPosition (players game) ! k))
                  = Some (slice (shuffle draws buildDeck) (13 * k) (13 * k + 13)))
       \<and> (\<forall>p\<in>set (players game). \<exists>h. hands (deal draws game) (playerId p) = Some h
                  \<and> length h = 13 \<and> distinct h \<and> set h \<subseteq> set buildDeck)
       \<and> (\<forall>p\<in>set (players game). \<forall>q\<in>set (players game). \<forall>hp hq.
              p \<noteq> q \<longrightarrow> hands (deal draws game) (playerId p) = Some hp
                    \<longrightarrow> hands (deal draws game) (playerId q) = Some hq
                    \<longrightarrow> set hp \<inter> set hq = {})
       \<and> (\<Union>p\<in>set (players game). case hands (deal draws game) (playerId p) of
                                        Some h \<Rightarrow> set h | None \<Rightarrow> {}) = set buildDeck
       \<and> dom (hands (deal draws game)) = playerId ` set (players game)"
proof -
  define deck where "deck = shuffle draws buildDeck"
  define seated where "seated = sort_js byPosition (players game)"
  define hand where "hand k = slice deck (13 * k) (13 * k + 13)" for k
  have perm: "mset deck = mset buildDeck"
    unfolding deck_def by (rule mset_shuffle[OF draws]) (simp add: length_buildDeck)
  then have len: "length deck = 52" and dist: "distinct deck" and cards: "set deck = set buildDeck"
    using length_buildDeck distinct_buildDeck
    by (metis size_mset, metis distinct_buildDeck mset_eq_imp_distinct_iff, metis set_mset_mset)
  have sperm: "mset seated = mset (players game)"
    unfolding seated_def by (rule mset_sort_js)
  then have slen: "length seated = 4" and sset: "set seated = set (players game)"
    using four by (metis size_mset, metis set_mset_mset)
  have "mset (map playerId seated) = mset (map playerId (players game))"
    using sperm by (metis mset_map)
  then have sids: "distinct (map playerId seated)"
    using ids by (metis mset_eq_imp_distinct_iff)
  have hs: "hands (deal draws game) = dealEach deck 0 seated Map.empty"
    by (simp add: hands_deal deck_def seated_def)
  have kth: "hands (deal draws game) (playerId (seated ! k)) = Some (hand k)" if "k < 4" for k
    using dealEach_nth[OF sids, of k deck 0 Map.empty] that slen
    by (simp add: hs hand_def mult.commute)
  have seat_of: "\<exists>k<4. p = seated ! k" if "p \<in> set (players game)" for p
    using that sset slen by (metis in_set_conv_nth)
  have inj: "k = k'" if "k < 4" "k' < 4" "seated ! k = seated ! k'" for k k'
  proof -
    from sids have "distinct seated" by (simp add: distinct_map)
    with that slen show ?thesis by (simp add: nth_eq_iff_index_eq)
  qed
  note sl = slices_of_deck[OF len dist, folded hand_def]
  have each: "\<exists>h. hands (deal draws game) (playerId p) = Some h
                  \<and> length h = 13 \<and> distinct h \<and> set h \<subseteq> set buildDeck"
    if "p \<in> set (players game)" for p
  proof -
    from seat_of[OF that] obtain k where k: "k < 4" "p = seated ! k" by blast
    with kth[OF k(1)] sl(1-3)[OF k(1)] cards show ?thesis by auto
  qed
  have disj: "set hp \<inter> set hq = {}"
    if "p \<in> set (players game)" "q \<in> set (players game)" "p \<noteq> q"
      "hands (deal draws game) (playerId p) = Some hp"
      "hands (deal draws game) (playerId q) = Some hq" for p q hp hq
  proof -
    from seat_of[OF that(1)] obtain k where k: "k < 4" "p = seated ! k" by blast
    from seat_of[OF that(2)] obtain k' where k': "k' < 4" "q = seated ! k'" by blast
    from that(3) k k' have "k \<noteq> k'" by auto
    from sl(4)[OF k(1) k'(1) this] kth[OF k(1)] kth[OF k'(1)] k k' that(4,5)
    show ?thesis by simp
  qed
  have union: "(\<Union>p\<in>set (players game). case hands (deal draws game) (playerId p) of
                                        Some h \<Rightarrow> set h | None \<Rightarrow> {}) = set buildDeck"
  proof -
    have "set (players game) = {seated ! k | k. k < 4}"
      using sset slen by (auto simp: set_conv_nth)
    then have "(\<Union>p\<in>set (players game). case hands (deal draws game) (playerId p) of
                                        Some h \<Rightarrow> set h | None \<Rightarrow> {})
        = (\<Union>k\<in>{k. k < 4}. case hands (deal draws game) (playerId (seated ! k)) of
                                        Some h \<Rightarrow> set h | None \<Rightarrow> {})"
      by auto
    also have "\<dots> = (\<Union>k\<in>{k. k < 4}. set (hand k))"
      using kth by simp
    also have "{k. k < 4} = {0, 1, 2, 3::nat}" by auto
    finally show ?thesis
      using union_slices[OF len] cards by (simp add: hand_def)
  qed
  have dom: "dom (hands (deal draws game)) = playerId ` set (players game)"
    by (simp add: hs dom_dealEach sset)
  have full: "set buildDeck = {rank @ suit | rank suit. rank \<in> set ranks \<and> suit \<in> set suits}"
  proof (rule set_eqI)
    fix c
    show "c \<in> set buildDeck
        \<longleftrightarrow> c \<in> {rank @ suit | rank suit. rank \<in> set ranks \<and> suit \<in> set suits}"
      unfolding in_buildDeck by blast
  qed
  have kth': "\<forall>k<4. hands (deal draws game) (playerId (seated ! k)) = Some (hand k)"
    using kth by blast
  have each': "\<forall>p\<in>set (players game). \<exists>h. hands (deal draws game) (playerId p) = Some h
                  \<and> length h = 13 \<and> distinct h \<and> set h \<subseteq> set buildDeck"
    using each by blast
  have disj': "\<forall>p\<in>set (players game). \<forall>q\<in>set (players game). \<forall>hp hq.
              p \<noteq> q \<longrightarrow> hands (deal draws game) (playerId p) = Some hp
                    \<longrightarrow> hands (deal draws game) (playerId q) = Some hq
                    \<longrightarrow> set hp \<inter> set hq = {}"
    using disj by blast
  from perm length_buildDeck distinct_buildDeck full sperm seated_sorted[OF seats] kth' each' disj'
    union dom
  show ?thesis
    unfolding deck_def seated_def hand_def by (intro conjI)
qed

theorem deal_partitions_deck_witness:
  "length (players table_game) = 4
   \<and> distinct (map playerId (players table_game))
   \<and> map position (players table_game) = [Some 0, Some 1, Some 2, Some 3]
   \<and> (\<forall>i. unit_draw (shuffleDraws env0 i))
   \<and> mset (shuffle (shuffleDraws env0) buildDeck) = mset buildDeck
   \<and> hands (deal (shuffleDraws env0) table_game) ''h1''
        = Some (slice (shuffle (shuffleDraws env0) buildDeck) 0 13)
   \<and> hands (deal (shuffleDraws env0) table_game) ''p4''
        = Some (slice (shuffle (shuffleDraws env0) buildDeck) 39 52)"
proof -
  have four: "length (players table_game) = 4"
    and ids: "distinct (map playerId (players table_game))"
    and seats: "\<forall>p\<in>set (players table_game). position p \<noteq> None"
    by (simp_all add: table_game_def ann_def bob_def cid_def dee_def)
  have draws: "\<forall>i. unit_draw (shuffleDraws env0 i)"
    by (simp add: env0_def unit_draw_def dyadic_def)
  have s: "sort_js byPosition (players table_game) = [ann, bob, cid, dee]"
    by (simp add: table_game_def sort_table)
  note t = deal_partitions_deck[OF four ids seats draws]
  from t have perm: "mset (shuffle (shuffleDraws env0) buildDeck) = mset buildDeck"
    by (elim conjE)
  from t have kth: "\<forall>k<4. hands (deal (shuffleDraws env0) table_game)
                 (playerId (sort_js byPosition (players table_game) ! k))
                  = Some (slice (shuffle (shuffleDraws env0) buildDeck) (13 * k) (13 * k + 13))"
    by (elim conjE)
  from kth have "hands (deal (shuffleDraws env0) table_game) (playerId ([ann, bob, cid, dee] ! 0))
       = Some (slice (shuffle (shuffleDraws env0) buildDeck) (13 * 0) (13 * 0 + 13))"
    unfolding s by (elim allE[where x = 0]) simp
  then have h0: "hands (deal (shuffleDraws env0) table_game) ''h1''
        = Some (slice (shuffle (shuffleDraws env0) buildDeck) 0 13)"
    by (simp add: ann_def)
  from kth have "hands (deal (shuffleDraws env0) table_game) (playerId ([ann, bob, cid, dee] ! 3))
       = Some (slice (shuffle (shuffleDraws env0) buildDeck) (13 * 3) (13 * 3 + 13))"
    unfolding s by (elim allE[where x = 3]) simp
  then have h3: "hands (deal (shuffleDraws env0) table_game) ''p4''
        = Some (slice (shuffle (shuffleDraws env0) buildDeck) 39 52)"
    by (simp add: dee_def)
  have pos: "map position (players table_game) = [Some 0, Some 1, Some 2, Some 3]"
    by (simp add: table_game_def ann_def bob_def cid_def dee_def)
  from four ids pos draws perm h0 h3 show ?thesis by (intro conjI)
qed

section \<open>Seats\<close>

text \<open>A generated code is its own normal form.\<close>

lemma charAt_chars: "x \<in> set (charAt chars n) \<Longrightarrow> x \<in> set chars"
  by (auto simp: charAt_def split: if_splits)

lemma generateCode_chars: "generateCode games draws = Some code \<Longrightarrow> set code \<subseteq> set chars"
proof (induction games draws rule: generateCode.induct)
  case (1 games r0 r1 r2 r3 r4 rest)
  then show ?case
    by (auto simp: Let_def split: if_splits dest: charAt_chars)
qed simp_all

lemma chars_all_plain: "list_all (\<lambda>c. \<not> isWhitespace c \<and> toUpperChar c = c) chars"
  by code_simp

lemma chars_plain: "c \<in> set chars \<Longrightarrow> \<not> isWhitespace c \<and> toUpperChar c = c"
  using chars_all_plain by (simp add: list_all_iff)

lemma dropWhile_none: "\<forall>x\<in>set xs. \<not> P x \<Longrightarrow> dropWhile P xs = xs"
  by (cases xs) auto

lemma canonical_code:
  assumes "set code \<subseteq> set chars"
  shows "toUpperCase (trim code) = code"
proof -
  from assms chars_plain have plain: "\<forall>c\<in>set code. \<not> isWhitespace c \<and> toUpperChar c = c" by blast
  then have "trim code = code" by (simp add: trim_def dropWhile_none)
  moreover from plain have "map toUpperChar code = code" by (simp add: map_idI)
  ultimately show ?thesis by (simp add: toUpperCase_def)
qed

text \<open>The seat that \<open>joinGame\<close> assigns.\<close>

lemma find_first_free:
  "find P [0, 1, 2, 3::nat]
     = (if P 0 then Some 0 else if P 1 then Some 1 else if P 2 then Some 2
        else if P 3 then Some 3 else None)"
  by simp

lemma upto_four: "[0..<1] = [0::nat]" "[0..<2] = [0, 1::nat]" "[0..<3] = [0, 1, 2::nat]"
    "[0..<4] = [0, 1, 2, 3::nat]"
  by (simp_all add: upt_rec)

lemma free_after_prefix:
  assumes "n < 4"
  shows "find (\<lambda>pos. Some pos \<notin> set (map Some [0..<n])) [0, 1, 2, 3] = Some n"
  using less_four[OF assms] by (auto simp: upto_four)

lemma join_seat:
  assumes "map position (players game) = map Some [0..<n]" and "n < 4"
  shows "joinGame game nm u
     = (game\<lparr>players := players game @ [\<lparr>playerId = u, name = nm, position = Some n\<rparr>]\<rparr>,
        \<lparr>playerId = u, name = nm, position = Some n\<rparr>)"
proof -
  have "find (\<lambda>pos. Some pos \<notin> set (map position (players game))) [0, 1, 2, 3] = Some n"
    unfolding assms(1) by (rule free_after_prefix[OF assms(2)])
  then show ?thesis unfolding joinGame_def Let_def by simp
qed

lemma lowest_free_seat:
  fixes game :: "'h game"
  assumes "length (players game) < 4"
  shows "\<exists>s<4. position (snd (joinGame game nm u)) = Some s
           \<and> Some s \<notin> position ` set (players game)
           \<and> (\<forall>t<s. Some t \<in> position ` set (players game))"
proof -
  let ?occ = "position ` set (players game)"
  have "card ?occ \<le> length (players game)"
    by (metis card_image_le card_length le_trans List.finite_set)
  with assms have small: "card ?occ < 4" by simp
  have free: "\<not> {Some 0, Some 1, Some 2, Some 3} \<subseteq> ?occ"
  proof
    assume "{Some 0, Some 1, Some 2, Some 3} \<subseteq> ?occ"
    then have "card {Some (0::nat), Some 1, Some 2, Some 3} \<le> card ?occ"
      by (intro card_mono) auto
    with small show False by simp
  qed
  have p: "position (snd (joinGame game nm u))
      = find (\<lambda>pos. Some pos \<notin> ?occ) [0, 1, 2, 3]"
    by (simp add: joinGame_def Let_def)
  consider "Some 0 \<notin> ?occ"
    | "Some 0 \<in> ?occ" "Some 1 \<notin> ?occ"
    | "Some 0 \<in> ?occ" "Some 1 \<in> ?occ" "Some 2 \<notin> ?occ"
    | "Some 0 \<in> ?occ" "Some 1 \<in> ?occ" "Some 2 \<in> ?occ" "Some 3 \<notin> ?occ"
    using free by blast
  then show ?thesis
  proof cases
    case 1
    then show ?thesis unfolding p find_first_free by (intro exI[of _ 0]) simp
  next
    case 2
    then show ?thesis unfolding p find_first_free by (intro exI[of _ 1]) simp
  next
    case 3
    have "t = 0 \<or> t = 1" if "t < 2" for t :: nat using that by arith
    with 3 show ?thesis unfolding p find_first_free by (intro exI[of _ 2]) auto
  next
    case 4
    have "t = 0 \<or> t = 1 \<or> t = 2" if "t < 3" for t :: nat using that by arith
    with 4 show ?thesis unfolding p find_first_free by (intro exI[of _ 3]) auto
  qed
qed

lemma join_step:
  assumes c: "toUpperCase (trim c) = c"
    and g: "games c = Some game" "gameId game = c" "status game = ''lobby''"
      "map position (players game) = map Some [0..<n]"
    and r: "handleApi e games (Join c nm) = Some (games', r)" "\<forall>err. r \<noteq> Failure err"
  shows "n < 4 \<and> r = Seated c (uuid e) (Some n)
       \<and> (\<exists>game'. games' c = Some game' \<and> gameId game' = c \<and> status game' = ''lobby''
             \<and> map position (players game') = map Some [0..<Suc n]
             \<and> map playerId (players game') = map playerId (players game) @ [uuid e])"
proof -
  from g(4) have len: "length (players game) = n" by (metis length_map length_upt diff_zero)
  from r g(1,3) c have n: "n < 4" and nm: "trim nm \<noteq> []"
    by (auto simp: Let_def len split: if_splits)
  note js = join_seat[OF g(4) n, of "trim nm" "uuid e"]
  from r(1) g(1,3) c n nm len js
  have "games' = games(c \<mapsto> game\<lparr>players := players game @ [\<lparr>playerId = uuid e, name = trim nm, position = Some n\<rparr>]\<rparr>)"
    and "r = Seated c (uuid e) (Some n)"
    by (auto simp: Let_def g(2))
  with n g show ?thesis by simp
qed

text \<open>Joins to one session, one after the other.\<close>

lemma run_joins:
  assumes c: "toUpperCase (trim c) = c"
  shows "games c = Some game \<Longrightarrow> gameId game = c \<Longrightarrow> status game = ''lobby''
    \<Longrightarrow> map position (players game) = map Some [0..<n] \<Longrightarrow> n \<le> 4
    \<Longrightarrow> run games (map (\<lambda>(e, nm). (e, Join c nm)) js) = Some (gamesN, rs)
    \<Longrightarrow> \<forall>r\<in>set rs. \<forall>err. r \<noteq> Failure err
    \<Longrightarrow> n + length js \<le> 4
       \<and> rs = map (\<lambda>(k, (e, nm)). Seated c (uuid e) (Some k)) (enumerate n js)
       \<and> (\<exists>g. gamesN c = Some g
             \<and> map position (players g) = map Some [0..<n + length js]
             \<and> map playerId (players g) = map playerId (players game) @ map (\<lambda>(e, nm). uuid e) js)"
proof (induction js arbitrary: games game n rs)
  case Nil
  then show ?case by simp
next
  case (Cons j js)
  obtain e nm where j: "j = (e, nm)" by (cases j)
  from Cons.prems(6) obtain games1 r1 rs1 where
    step: "handleApi e games (Join c nm) = Some (games1, r1)"
    and rest: "run games1 (map (\<lambda>(e, nm). (e, Join c nm)) js) = Some (gamesN, rs1)"
    and rs: "rs = r1 # rs1"
    by (auto simp: j split: option.splits prod.splits)
  from Cons.prems(7) rs have ok1: "\<forall>err. r1 \<noteq> Failure err"
    and oks: "\<forall>r\<in>set rs1. \<forall>err. r \<noteq> Failure err" by auto
  from join_step[OF c Cons.prems(1-4) step ok1] obtain game1 where
    n: "n < 4" and r1: "r1 = Seated c (uuid e) (Some n)"
    and g1: "games1 c = Some game1" "gameId game1 = c" "status game1 = ''lobby''"
       "map position (players game1) = map Some [0..<Suc n]"
    and ids: "map playerId (players game1) = map playerId (players game) @ [uuid e]"
    by blast
  from n have "Suc n \<le> 4" by simp
  from Cons.IH[OF g1 this rest oks] ids r1 rs show ?case
    by (auto simp: j enumerate_simps)
qed


text \<open>
  Claim C5. On a freshly created session the creator holds seat 0. After any sequence
  of joins to that session that all succeed, there were at most three of them, the
  \<open>k\<close>-th joiner has received seat \<open>k\<close>, and the players of the session hold the seats
  0, 1, 2, ... in the order of their arrival (0, 1, 2, 3 once four are present). In
  general a join to a session with fewer than four players assigns the lowest of the
  seats 0 to 3 that no player of the session holds.
\<close>

theorem seats_in_order_of_arrival:
  fixes js :: "(env \<times> string) list"
  assumes "createGame games draws u0 t0 nm0 = Some (games0, g0, p0)"
    and "run games0 (map (\<lambda>(e, nm). (e, Join (gameId g0) nm)) js) = Some (gamesN, rs)"
    and "\<forall>r\<in>set rs. \<forall>err. r \<noteq> Failure err"
  shows "position p0 = Some 0
       \<and> length js \<le> 3
       \<and> rs = map (\<lambda>(k, (e, nm)). Seated (gameId g0) (uuid e) (Some k)) (enumerate 1 js)
       \<and> (\<exists>g. gamesN (gameId g0) = Some g
             \<and> map position (players g) = map Some [0..<Suc (length js)]
             \<and> map playerId (players g) = u0 # map (\<lambda>(e, nm). uuid e) js)
       \<and> (\<forall>(game :: string list game) nm u. length (players game) < 4 \<longrightarrow>
             (\<exists>s<4. position (snd (joinGame game nm u)) = Some s
                  \<and> Some s \<notin> position ` set (players game)
                  \<and> (\<forall>t<s. Some t \<in> position ` set (players game))))"
proof -
  from createGame_host[OF assms(1)] have
    g0: "games0 = games(gameId g0 \<mapsto> g0)" "playerId p0 = u0" "players g0 = [p0]"
      "position p0 = Some 0" "status g0 = ''lobby''"
    by simp_all
  from assms(1) have "generateCode games draws = Some (gameId g0)"
    by (auto simp: createGame_def Let_def split: option.splits)
  then have c: "toUpperCase (trim (gameId g0)) = gameId g0"
    by (intro canonical_code generateCode_chars)
  have stored: "games0 (gameId g0) = Some g0" by (simp add: g0(1))
  have seats: "map position (players g0) = map Some [0..<1]" by (simp add: g0)
  have low: "\<forall>(game :: string list game) nm u. length (players game) < 4 \<longrightarrow>
             (\<exists>s<4. position (snd (joinGame game nm u)) = Some s
                  \<and> Some s \<notin> position ` set (players game)
                  \<and> (\<forall>t<s. Some t \<in> position ` set (players game)))"
    using lowest_free_seat by blast
  from run_joins[OF c stored refl g0(5) seats _ assms(2,3)]
  have "1 + length js \<le> 4"
    and "rs = map (\<lambda>(k, (e, nm)). Seated (gameId g0) (uuid e) (Some k)) (enumerate 1 js)"
    and "\<exists>g. gamesN (gameId g0) = Some g
             \<and> map position (players g) = map Some [0..<1 + length js]
             \<and> map playerId (players g) = map playerId (players g0) @ map (\<lambda>(e, nm). uuid e) js"
    by simp_all
  then have "length js \<le> 3"
    and "rs = map (\<lambda>(k, (e, nm)). Seated (gameId g0) (uuid e) (Some k)) (enumerate 1 js)"
    and "\<exists>g. gamesN (gameId g0) = Some g
             \<and> map position (players g) = map Some [0..<Suc (length js)]
             \<and> map playerId (players g) = u0 # map (\<lambda>(e, nm). uuid e) js"
    by (simp_all add: g0)
  with g0(4) low show ?thesis by (intro conjI)
qed

text \<open>Ann creates the table; Bob, Cid and Dee join it.\<close>

lemma code_of_env0: "generateCode Map.empty (codeDraws env0) = Some ''ABCDE''"
  by (simp add: env0_def dyadic_def chars_def charAt_def randomIndex_def round53_def)

lemma create_table:
  "createGame Map.empty (codeDraws env0) ''h1'' 0 ''Ann'' = Some ([''ABCDE'' \<mapsto> lobby1], lobby1, ann)"
  by (simp add: createGame_def Let_def code_of_env0 lobby1_def table_game_def ann_def)

lemma norm_names: "trim ''Bob'' = ''Bob''" "trim ''Cid'' = ''Cid''" "trim ''Dee'' = ''Dee''"
   "toUpperCase (trim ''ABCDE'') = ''ABCDE''"
  by (simp_all add: trim_def isWhitespace_def toUpperCase_def toUpperChar_def)

lemma join_bob:
  "handleApi (env0\<lparr>uuid := ''p2''\<rparr>) [''ABCDE'' \<mapsto> lobby1] (Join ''ABCDE'' ''Bob'')
     = Some ([''ABCDE'' \<mapsto> table_game\<lparr>players := [ann, bob]\<rparr>], Seated ''ABCDE'' ''p2'' (Some 1))"
  by (simp add: norm_names Let_def lobby1_def table_game_def joinGame_def ann_def bob_def)

lemma join_cid:
  "handleApi (env0\<lparr>uuid := ''p3''\<rparr>) [''ABCDE'' \<mapsto> table_game\<lparr>players := [ann, bob]\<rparr>] (Join ''ABCDE'' ''Cid'')
     = Some ([''ABCDE'' \<mapsto> table_game\<lparr>players := [ann, bob, cid]\<rparr>], Seated ''ABCDE'' ''p3'' (Some 2))"
  by (simp add: norm_names Let_def table_game_def joinGame_def ann_def bob_def cid_def)

lemma join_dee:
  "handleApi (env0\<lparr>uuid := ''p4''\<rparr>) [''ABCDE'' \<mapsto> table_game\<lparr>players := [ann, bob, cid]\<rparr>] (Join ''ABCDE'' ''Dee'')
     = Some ([''ABCDE'' \<mapsto> table_game], Seated ''ABCDE'' ''p4'' (Some 3))"
  by (simp add: norm_names Let_def table_game_def joinGame_def ann_def bob_def cid_def dee_def)

lemma run_table:
  "run [''ABCDE'' \<mapsto> lobby1]
     (map (\<lambda>(e, nm). (e, Join (gameId lobby1) nm))
        [joiner ''p2'' ''Bob'', joiner ''p3'' ''Cid'', joiner ''p4'' ''Dee''])
   = Some (table_store, [Seated ''ABCDE'' ''p2'' (Some 1), Seated ''ABCDE'' ''p3'' (Some 2),
                         Seated ''ABCDE'' ''p4'' (Some 3)])"
proof -
  have c: "gameId lobby1 = ''ABCDE''" by (simp add: lobby1_def table_game_def)
  show ?thesis
    by (simp add: c joiner_def join_bob join_cid join_dee table_store_def del: handleApi.simps)
qed

theorem seats_in_order_of_arrival_witness:
  "createGame Map.empty (codeDraws env0) ''h1'' 0 ''Ann'' = Some ([''ABCDE'' \<mapsto> lobby1], lobby1, ann)
   \<and> run [''ABCDE'' \<mapsto> lobby1]
        (map (\<lambda>(e, nm). (e, Join (gameId lobby1) nm))
           [joiner ''p2'' ''Bob'', joiner ''p3'' ''Cid'', joiner ''p4'' ''Dee''])
      = Some (table_store, [Seated ''ABCDE'' ''p2'' (Some 1), Seated ''ABCDE'' ''p3'' (Some 2),
                            Seated ''ABCDE'' ''p4'' (Some 3)])
   \<and> position ann = Some 0
   \<and> (\<exists>g. table_store (gameId lobby1) = Some g
         \<and> map position (players g) = map Some [0..<4]
         \<and> map playerId (players g) = [''h1'', ''p2'', ''p3'', ''p4''])"
proof -
  have ok: "\<forall>r\<in>set [Seated ''ABCDE'' ''p2'' (Some 1), Seated ''ABCDE'' ''p3'' (Some 2),
                      Seated ''ABCDE'' ''p4'' (Some 3)]. \<forall>err. r \<noteq> Failure err"
    by simp
  note t = seats_in_order_of_arrival[OF create_table run_table ok]
  from t have a: "position ann = Some 0" by (elim conjE)
  from t have "\<exists>g. table_store (gameId lobby1) = Some g
         \<and> map position (players g)
              = map Some [0..<Suc (length [joiner ''p2'' ''Bob'', joiner ''p3'' ''Cid'', joiner ''p4'' ''Dee''])]
         \<and> map playerId (players g)
              = ''h1'' # map (\<lambda>(e, nm). uuid e) [joiner ''p2'' ''Bob'', joiner ''p3'' ''Cid'', joiner ''p4'' ''Dee'']"
    by (elim conjE)
  then obtain g where g: "table_store (gameId lobby1) = Some g
         \<and> map position (players g)
              = map Some [0..<Suc (length [joiner ''p2'' ''Bob'', joiner ''p3'' ''Cid'', joiner ''p4'' ''Dee''])]
         \<and> map playerId (players g)
              = ''h1'' # map (\<lambda>(e, nm). uuid e) [joiner ''p2'' ''Bob'', joiner ''p3'' ''Cid'', joiner ''p4'' ''Dee'']"
    ..
  have len: "Suc (length [joiner ''p2'' ''Bob'', joiner ''p3'' ''Cid'', joiner ''p4'' ''Dee'']) = 4"
    by simp
  have g1: "table_store (gameId lobby1) = Some g" using g by (elim conjE)
  have g2: "map position (players g) = map Some [0..<4]"
    using g unfolding len by (elim conjE)
  have "map playerId (players g)
         = ''h1'' # map (\<lambda>(e, nm). uuid e) [joiner ''p2'' ''Bob'', joiner ''p3'' ''Cid'', joiner ''p4'' ''Dee'']"
    using g by (elim conjE)
  then have g3: "map playerId (players g) = [''h1'', ''p2'', ''p3'', ''p4'']"
    by (simp add: joiner_def)
  have b: "\<exists>g. table_store (gameId lobby1) = Some g
         \<and> map position (players g) = map Some [0..<4]
         \<and> map playerId (players g) = [''h1'', ''p2'', ''p3'', ''p4'']"
    using g1 g2 g3 by (intro exI[of _ g] conjI)
  from create_table run_table a b show ?thesis by (intro conjI)
qed

section \<open>The guards of start\<close>

text \<open>Every player of the list holds one of the slices after the loop of \<open>deal\<close>.\<close>

lemma dealEach_member:
  "p \<in> set ps \<Longrightarrow>
     \<exists>k<length ps. dealEach deck idx ps hs (playerId p)
        = Some (slice deck ((idx + k) * 13) ((idx + k) * 13 + 13))"
proof (induction ps arbitrary: idx hs p)
  case Nil
  then show ?case by simp
next
  case (Cons q ps)
  show ?case
  proof (cases "playerId p \<in> playerId ` set ps")
    case True
    then obtain p' where p': "p' \<in> set ps" "playerId p' = playerId p" by auto
    from Cons.IH[OF p'(1), of "Suc idx" "hs(playerId q \<mapsto> slice deck (idx * 13) (idx * 13 + 13))"]
    obtain k where k: "k < length ps"
      "dealEach deck (Suc idx) ps (hs(playerId q \<mapsto> slice deck (idx * 13) (idx * 13 + 13)))
          (playerId p') = Some (slice deck ((Suc idx + k) * 13) ((Suc idx + k) * 13 + 13))"
      by blast
    have "dealEach deck idx (q # ps) hs (playerId p)
        = Some (slice deck ((idx + Suc k) * 13) ((idx + Suc k) * 13 + 13))"
      using k(2) p'(2) by (simp add: Let_def)
    moreover have "Suc k < length (q # ps)" using k(1) by simp
    ultimately show ?thesis by blast
  next
    case False
    with Cons.prems have "p = q" by auto
    with False have "dealEach deck idx (q # ps) hs (playerId p)
        = Some (slice deck ((idx + 0) * 13) ((idx + 0) * 13 + 13))"
      by (simp add: Let_def dealEach_other)
    then show ?thesis by (intro exI[of _ 0]) simp
  qed
qed

text \<open>What a start by the host of a lobby of four leaves in the session.\<close>

lemma deal_effect:
  assumes "length (players game) = 4"
  shows "status (deal draws game) = ''started''"
    and "gameId (deal draws game) = gameId game"
    and "hostId (deal draws game) = hostId game"
    and "players (deal draws game) = players game"
    and "dom (hands (deal draws game)) = playerId ` set (players game)"
    and "\<forall>p\<in>set (players game). \<exists>k<4. hands (deal draws game) (playerId p)
            = Some (slice (shuffle draws buildDeck) (13 * k) (13 * k + 13))"
proof -
  show "status (deal draws game) = ''started''" "gameId (deal draws game) = gameId game"
    "hostId (deal draws game) = hostId game" "players (deal draws game) = players game"
    by (simp_all add: deal_def Let_def)
  show "dom (hands (deal draws game)) = playerId ` set (players game)"
    by (simp add: hands_deal dom_dealEach set_sort_js)
  show "\<forall>p\<in>set (players game). \<exists>k<4. hands (deal draws game) (playerId p)
            = Some (slice (shuffle draws buildDeck) (13 * k) (13 * k + 13))"
  proof
    fix p assume "p \<in> set (players game)"
    then have "p \<in> set (sort_js byPosition (players game))" by (simp add: set_sort_js)
    from dealEach_member[OF this, of "shuffle draws buildDeck" 0 Map.empty]
    obtain k where "k < length (sort_js byPosition (players game))"
      "hands (deal draws game) (playerId p)
         = Some (slice (shuffle draws buildDeck) (k * 13) (k * 13 + 13))"
      by (auto simp: hands_deal)
    moreover have "length (sort_js byPosition (players game)) = 4"
      using assms mset_sort_js[of byPosition "players game"] by (metis size_mset)
    ultimately show "\<exists>k<4. hands (deal draws game) (playerId p)
            = Some (slice (shuffle draws buildDeck) (13 * k) (13 * k + 13))"
      by (auto simp: mult.commute)
  qed
qed

text \<open>
  Claim C8 (as amended). Start on a session fails with NotHost whenever the requester
  is not the session's host, and fails with PlayerCountInvalid whenever the requester
  is the host and the session does not have exactly four players; the two failures
  leave the registry as it was. A start by the host of a lobby of four performs the
  deal: the request succeeds, the session has the status "started" and the same code,
  host and players, exactly its players hold a hand, and every hand is one of the four
  slices of 13 cards of the shuffled deck. No request changes the host id of a session,
  which is the id of the player who created it.
\<close>

theorem start_guards:
  assumes "games gid = Some game"
  shows "(hostId game \<noteq> pid \<longrightarrow>
            handleApi e games (Start gid pid) = Some (games, Failure NotHost))
       \<and> (hostId game = pid \<and> length (players game) \<noteq> 4 \<longrightarrow>
            handleApi e games (Start gid pid) = Some (games, Failure PlayerCountInvalid))
       \<and> (hostId game = pid \<and> length (players game) = 4 \<and> status game = ''lobby'' \<longrightarrow>
            (\<exists>game'. handleApi e games (Start gid pid) = Some (games(gid \<mapsto> game'), Ok)
               \<and> status game' = ''started'' \<and> gameId game' = gameId game
               \<and> hostId game' = hostId game \<and> players game' = players game
               \<and> dom (hands game') = playerId ` set (players game)
               \<and> (\<forall>p\<in>set (players game). \<exists>k<4. hands game' (playerId p)
                     = Some (slice (shuffle (shuffleDraws e) buildDeck) (13 * k) (13 * k + 13)))))
       \<and> (\<forall>e' req games' r. handleApi e' games req = Some (games', r) \<longrightarrow>
            (\<exists>g'. games' gid = Some g' \<and> hostId g' = hostId game))
       \<and> (\<forall>games0 draws u t nm games1 g p.
             createGame games0 draws u t nm = Some (games1, g, p) \<longrightarrow> hostId g = playerId p)"
proof -
  have a: "hostId game \<noteq> pid \<longrightarrow>
            handleApi e games (Start gid pid) = Some (games, Failure NotHost)"
    using assms by simp
  have b: "hostId game = pid \<and> length (players game) \<noteq> 4 \<longrightarrow>
            handleApi e games (Start gid pid) = Some (games, Failure PlayerCountInvalid)"
    using assms by simp
  have c: "hostId game = pid \<and> length (players game) = 4 \<and> status game = ''lobby'' \<longrightarrow>
            (\<exists>game'. handleApi e games (Start gid pid) = Some (games(gid \<mapsto> game'), Ok)
               \<and> status game' = ''started'' \<and> gameId game' = gameId game
               \<and> hostId game' = hostId game \<and> players game' = players game
               \<and> dom (hands game') = playerId ` set (players game)
               \<and> (\<forall>p\<in>set (players game). \<exists>k<4. hands game' (playerId p)
                     = Some (slice (shuffle (shuffleDraws e) buildDeck) (13 * k) (13 * k + 13))))"
  proof
    assume h: "hostId game = pid \<and> length (players game) = 4 \<and> status game = ''lobby''"
    then have four: "length (players game) = 4" by simp
    from h assms have "handleApi e games (Start gid pid)
        = Some (games(gid \<mapsto> deal (shuffleDraws e) game), Ok)" by simp
    with deal_effect[OF four, of "shuffleDraws e"]
    show "\<exists>game'. handleApi e games (Start gid pid) = Some (games(gid \<mapsto> game'), Ok)
               \<and> status game' = ''started'' \<and> gameId game' = gameId game
               \<and> hostId game' = hostId game \<and> players game' = players game
               \<and> dom (hands game') = playerId ` set (players game)
               \<and> (\<forall>p\<in>set (players game). \<exists>k<4. hands game' (playerId p)
                     = Some (slice (shuffle (shuffleDraws e) buildDeck) (13 * k) (13 * k + 13)))"
      by (intro exI[of _ "deal (shuffleDraws e) game"] conjI)
  qed
  have d: "\<forall>e' req games' r. handleApi e' games req = Some (games', r) \<longrightarrow>
            (\<exists>g'. games' gid = Some g' \<and> hostId g' = hostId game)"
    using host_kept[where games = games and c = gid and g = game] assms by blast
  have f: "\<forall>games0 draws u t nm games1 g p.
             createGame games0 draws u t nm = Some (games1, g, p) \<longrightarrow> hostId g = playerId p"
    using createGame_host by simp
  from a b c d f show ?thesis by (intro conjI)
qed

theorem start_guards_witness:
  "table_store ''ABCDE'' = Some table_game
   \<and> handleApi env0 table_store (Start ''ABCDE'' ''p2'') = Some (table_store, Failure NotHost)
   \<and> handleApi env0 [''ABCDE'' \<mapsto> lobby2] (Start ''ABCDE'' ''h1'')
       = Some ([''ABCDE'' \<mapsto> lobby2], Failure PlayerCountInvalid)
   \<and> (\<exists>game'. handleApi env0 table_store (Start ''ABCDE'' ''h1'')
                  = Some (table_store(''ABCDE'' \<mapsto> game'), Ok)
         \<and> status game' = ''started'' \<and> players game' = [ann, bob, cid, dee]
         \<and> dom (hands game') = {''h1'', ''p2'', ''p3'', ''p4''})"
proof -
  have g: "table_store ''ABCDE'' = Some table_game" by (simp add: table_store_def)
  have g2: "[''ABCDE'' \<mapsto> lobby2] ''ABCDE'' = Some lobby2" by simp
  have t: "hostId table_game = ''h1''" "length (players table_game) = 4"
    "status table_game = ''lobby''" "players table_game = [ann, bob, cid, dee]"
    by (simp_all add: table_game_def)
  have l: "hostId lobby2 = ''h1''" "length (players lobby2) \<noteq> 4"
    by (simp_all add: lobby2_def table_game_def)
  note s1 = start_guards[where games = table_store and gid = "''ABCDE''" and game = table_game
        and pid = "''p2''" and e = env0, OF g]
  note s2 = start_guards[where games = "[''ABCDE'' \<mapsto> lobby2]" and gid = "''ABCDE''"
        and game = lobby2 and pid = "''h1''" and e = env0, OF g2]
  note s3 = start_guards[where games = table_store and gid = "''ABCDE''" and game = table_game
        and pid = "''h1''" and e = env0, OF g]
  from s1 t have a: "handleApi env0 table_store (Start ''ABCDE'' ''p2'')
      = Some (table_store, Failure NotHost)" by simp
  from s2 l have b: "handleApi env0 [''ABCDE'' \<mapsto> lobby2] (Start ''ABCDE'' ''h1'')
       = Some ([''ABCDE'' \<mapsto> lobby2], Failure PlayerCountInvalid)" by simp
  from s3 have "hostId table_game = ''h1'' \<and> length (players table_game) = 4
        \<and> status table_game = ''lobby'' \<longrightarrow>
      (\<exists>game'. handleApi env0 table_store (Start ''ABCDE'' ''h1'')
                  = Some (table_store(''ABCDE'' \<mapsto> game'), Ok)
         \<and> status game' = ''started'' \<and> gameId game' = gameId table_game
         \<and> hostId game' = hostId table_game \<and> players game' = players table_game
         \<and> dom (hands game') = playerId ` set (players table_game)
         \<and> (\<forall>p\<in>set (players table_game). \<exists>k<4. hands game' (playerId p)
               = Some (slice (shuffle (shuffleDraws env0) buildDeck) (13 * k) (13 * k + 13))))"
    by (elim conjE)
  with t(1-3) obtain game' where c':
      "handleApi env0 table_store (Start ''ABCDE'' ''h1'') = Some (table_store(''ABCDE'' \<mapsto> game'), Ok)
         \<and> status game' = ''started'' \<and> gameId game' = gameId table_game
         \<and> hostId game' = hostId table_game \<and> players game' = players table_game
         \<and> dom (hands game') = playerId ` set (players table_game)
         \<and> (\<forall>p\<in>set (players table_game). \<exists>k<4. hands game' (playerId p)
               = Some (slice (shuffle (shuffleDraws env0) buildDeck) (13 * k) (13 * k + 13)))"
    by (elim impE exE) (intro conjI, assumption+)
  then have c:
      "handleApi env0 table_store (Start ''ABCDE'' ''h1'') = Some (table_store(''ABCDE'' \<mapsto> game'), Ok)"
      "status game' = ''started''" "players game' = players table_game"
      "dom (hands game') = playerId ` set (players table_game)"
    by simp_all
  have "dom (hands game') = {''h1'', ''p2'', ''p3'', ''p4''}"
    using c(4) by (simp add: t(4) ann_def bob_def cid_def dee_def)
  with c(1-3) t(4) have "\<exists>game'. handleApi env0 table_store (Start ''ABCDE'' ''h1'')
                  = Some (table_store(''ABCDE'' \<mapsto> game'), Ok)
         \<and> status game' = ''started'' \<and> players game' = [ann, bob, cid, dee]
         \<and> dom (hands game') = {''h1'', ''p2'', ''p3'', ''p4''}"
    by (intro exI[of _ game']) simp
  with g a b show ?thesis by (intro conjI)
qed

text \<open>
  A start by a player who is not the host, on a lobby of two, fails with NotHost and not
  with PlayerCountInvalid: the host is checked first.
\<close>

theorem start_order_counterexample:
  "length (players lobby2) \<noteq> 4 \<and> hostId lobby2 \<noteq> ''p2''
   \<and> handleApi env0 [''ABCDE'' \<mapsto> lobby2] (Start ''ABCDE'' ''p2'')
        = Some ([''ABCDE'' \<mapsto> lobby2], Failure NotHost)
   \<and> handleApi env0 [''ABCDE'' \<mapsto> lobby2] (Start ''ABCDE'' ''p2'')
        \<noteq> Some ([''ABCDE'' \<mapsto> lobby2], Failure PlayerCountInvalid)"
  by (simp add: lobby2_def table_game_def)

end
